(* ===== verification/Wallet_Prelude.thy ===== *)
theory Wallet_Prelude
  imports Main "HOL-Library.Char_ord" "HOL-Library.List_Lexorder"
begin

text \<open>
  Shared vocabulary of the development: names for the scalar types of the program, the
  64-bit range of a Go \<open>int64\<close> and of a Postgres \<open>bigint\<close>, the decimal output of
  \<open>fmt.Sprintf("%d")\<close>, tables as lists of rows with \<open>UPDATE ... WHERE\<close> on them, and
  the generic lemmas on lists and sums that the component theories use.
  A Go string and a \<open>[]byte\<close> are lists of bytes (\<^typ>\<open>string\<close>), compared bytewise, as
  Go compares strings.
\<close>

section \<open>Scalar types\<close>

type_synonym bytes = string

text \<open>A \<open>uuid\<close> value is represented by its output text (lower case, grouped 8-4-4-4-12).\<close>

type_synonym uuid = string

text \<open>A \<open>timestamptz\<close>, in microseconds.\<close>

type_synonym time = int

text \<open>Money: integer paise, a Go \<open>int64\<close> and a \<open>bigint\<close> column.\<close>

type_synonym paise = int

section \<open>Collections of rules\<close>

named_theorems schema_simps \<open>unfolding rules for the schema predicate\<close>
named_theorems keeps_intros \<open>operations that keep the state invariant\<close>

section \<open>64-bit integers\<close>

definition int64_max :: int where
  "int64_max = 9223372036854775807"

definition int64_min :: int where
  "int64_min = - 9223372036854775808"

definition in_int64 :: "int \<Rightarrow> bool" where
  "in_int64 i \<longleftrightarrow> int64_min \<le> i \<and> i \<le> int64_max"

text \<open>Two's complement wrap-around of Go's \<open>int64\<close> arithmetic.\<close>

definition wrap64 :: "int \<Rightarrow> int" where
  "wrap64 i = (i + 9223372036854775808) mod 18446744073709551616 - 9223372036854775808"

section \<open>Decimal output\<close>

definition digit_char :: "nat \<Rightarrow> char" where
  "digit_char d = char_of (48 + d)"

fun show_nat :: "nat \<Rightarrow> string" where
  "show_nat n = (if n < 10 then [digit_char n] else show_nat (n div 10) @ [digit_char (n mod 10)])"

declare show_nat.simps [simp del]

text \<open>\<open>fmt.Sprintf("%d", i)\<close>.\<close>

definition show_int :: "int \<Rightarrow> string" where
  "show_int i = (if i < 0 then CHR ''-'' # show_nat (nat (- i)) else show_nat (nat i))"

text \<open>Reading decimal digits back, most significant first.\<close>

fun read_digits :: "nat \<Rightarrow> string \<Rightarrow> nat" where
  "read_digits acc [] = acc"
| "read_digits acc (c # cs) = read_digits (10 * acc + (of_char c - 48)) cs"

definition is_digit :: "char \<Rightarrow> bool" where
  "is_digit c \<longleftrightarrow> (48 :: nat) \<le> of_char c \<and> of_char c \<le> (57 :: nat)"

section \<open>Tables as lists of rows\<close>

text \<open>\<open>UPDATE t SET f WHERE P\<close> on the rows of a table, and its number of affected rows.\<close>

definition update_where :: "('r \<Rightarrow> bool) \<Rightarrow> ('r \<Rightarrow> 'r) \<Rightarrow> 'r list \<Rightarrow> 'r list" where
  "update_where P f rows = map (\<lambda>r. if P r then f r else r) rows"

definition rows_affected :: "('r \<Rightarrow> bool) \<Rightarrow> 'r list \<Rightarrow> nat" where
  "rows_affected P rows = length (filter P rows)"

text \<open>\<open>SELECT sum(c) FROM t\<close> (\<open>coalesce(_, 0)\<close> on the empty table).\<close>

definition col_sum :: "('r \<Rightarrow> int) \<Rightarrow> 'r list \<Rightarrow> int" where
  "col_sum c rows = sum_list (map c rows)"

text \<open>The first violation in a list of optional violations.\<close>

fun first_some :: "'a option list \<Rightarrow> 'a option" where
  "first_some [] = None"
| "first_some (Some x # xs) = Some x"
| "first_some (None # xs) = first_some xs"

section \<open>Lemmas: integers and decimals\<close>

lemma in_int64_0 [simp]: "in_int64 0"
  by (simp add: in_int64_def int64_min_def int64_max_def)

lemma wrap64_in_int64 [simp]: "in_int64 (wrap64 i)"
proof -
  have "0 \<le> (i + 9223372036854775808) mod 18446744073709551616"
    and "(i + 9223372036854775808) mod 18446744073709551616 < 18446744073709551616"
    by simp_all
  then show ?thesis
    by (simp add: in_int64_def wrap64_def int64_min_def int64_max_def)
qed

lemma wrap64_id [simp]: "in_int64 i \<Longrightarrow> wrap64 i = i"
  by (simp add: in_int64_def wrap64_def int64_min_def int64_max_def)

lemma digit_char_code: "d < 10 \<Longrightarrow> of_char (digit_char d) = 48 + d"
  by (simp add: digit_char_def)

lemma is_digit_digit_char: "d < 10 \<Longrightarrow> is_digit (digit_char d)"
  by (simp add: is_digit_def digit_char_code)

lemma read_digits_append: "read_digits acc (xs @ ys) = read_digits (read_digits acc xs) ys"
  by (induction acc xs rule: read_digits.induct) simp_all

lemma read_show_nat: "read_digits 0 (show_nat n) = n"
proof (induction n rule: show_nat.induct)
  case (1 n)
  show ?case
  proof (cases "n < 10")
    case True
    then show ?thesis by (subst show_nat.simps) (simp add: digit_char_code)
  next
    case False
    with "1.IH" show ?thesis
      by (subst show_nat.simps) (simp add: read_digits_append digit_char_code)
  qed
qed

lemma show_nat_digits: "c \<in> set (show_nat n) \<Longrightarrow> is_digit c"
proof (induction n rule: show_nat.induct)
  case (1 n)
  then show ?case
    by (subst (asm) (2) show_nat.simps) (auto simp: is_digit_digit_char split: if_splits)
qed

lemma show_nat_inj: "show_nat m = show_nat n \<Longrightarrow> m = n"
  by (metis read_show_nat)

lemma show_nat_not_minus: "show_nat n \<noteq> CHR ''-'' # cs"
proof
  assume "show_nat n = CHR ''-'' # cs"
  then have "is_digit CHR ''-''" using show_nat_digits [of "CHR ''-''" n] by simp
  then show False by (simp add: is_digit_def)
qed

lemma show_int_inj: "show_int i = show_int j \<Longrightarrow> i = j"
  by (auto simp: show_int_def show_nat_not_minus show_nat_not_minus [symmetric]
      dest!: show_nat_inj split: if_splits)

lemma show_int_chars: "c \<in> set (show_int i) \<Longrightarrow> is_digit c \<or> c = CHR ''-''"
  by (auto simp: show_int_def dest: show_nat_digits split: if_splits)

lemma append_sep_inj:
  assumes "xs @ c # ys = xs' @ c # ys'" and "c \<notin> set xs" and "c \<notin> set xs'"
  shows "xs = xs' \<and> ys = ys'"
  using assms
proof (induction xs arbitrary: xs')
  case Nil
  then show ?case by (cases xs') auto
next
  case (Cons x xs)
  then show ?case by (cases xs') auto
qed

section \<open>Lemmas: rows\<close>

lemma first_some_None: "first_some xs = None \<longleftrightarrow> (\<forall>x \<in> set xs. x = None)"
  by (induction xs rule: first_some.induct) auto

lemma case_first_some_Inr:
  "(case first_some xs of None \<Rightarrow> r | Some c \<Rightarrow> Inl (f c)) = Inr y \<longleftrightarrow>
     (\<forall>x \<in> set xs. x = None) \<and> r = Inr y"
  using first_some_None [of xs] by (cases "first_some xs") auto

lemma update_where_simps [simp]:
  "update_where P f [] = []"
  "update_where P f (r # rs) = (if P r then f r else r) # update_where P f rs"
  by (simp_all add: update_where_def)

lemma update_where_append [simp]:
  "update_where P f (xs @ ys) = update_where P f xs @ update_where P f ys"
  by (simp add: update_where_def)

lemma length_update_where [simp]: "length (update_where P f rows) = length rows"
  by (simp add: update_where_def)

lemma set_update_where: "set (update_where P f rows) = (\<lambda>r. if P r then f r else r) ` set rows"
  by (simp add: update_where_def)

lemma update_where_none: "(\<And>r. r \<in> set rows \<Longrightarrow> \<not> P r) \<Longrightarrow> update_where P f rows = rows"
  by (induction rows) simp_all

lemma map_update_where_same:
  "(\<And>r. g (f r) = g r) \<Longrightarrow> map g (update_where P f rows) = map g rows"
  by (induction rows) simp_all

lemma col_sum_simps [simp]:
  "col_sum c [] = 0"
  "col_sum c (r # rs) = c r + col_sum c rs"
  "col_sum c (xs @ ys) = col_sum c xs + col_sum c ys"
  by (simp_all add: col_sum_def)

lemma col_sum_nonneg: "(\<And>r. r \<in> set rows \<Longrightarrow> 0 \<le> c r) \<Longrightarrow> 0 \<le> col_sum c rows"
  by (induction rows) auto

lemma col_sum_member_le:
  "r \<in> set rows \<Longrightarrow> (\<And>r. r \<in> set rows \<Longrightarrow> 0 \<le> c r) \<Longrightarrow> c r \<le> col_sum c rows"
  by (induction rows) (fastforce intro: col_sum_nonneg)+

text \<open>
  Updating the one row with a given key changes a column sum by that row's change.
\<close>

lemma col_sum_update_key:
  assumes "distinct (map k rows)" and "r \<in> set rows" and "P = (\<lambda>x. k x = k r)"
  shows "col_sum c (update_where P f rows) = col_sum c rows - c r + c (f r)"
  using assms
proof (induction rows)
  case Nil
  then show ?case by simp
next
  case (Cons x xs)
  show ?case
  proof (cases "x = r")
    case True
    with Cons.prems have "\<And>y. y \<in> set xs \<Longrightarrow> \<not> P y" by (auto simp: image_iff)
    then have "update_where P f xs = xs" by (rule update_where_none)
    with True Cons.prems show ?thesis by simp
  next
    case False
    with Cons.prems have "k x \<noteq> k r" "r \<in> set xs" by (auto simp: rev_image_eqI)
    with Cons show ?thesis by simp
  qed
qed

lemma find_key_unique:
  assumes "distinct (map k rows)" and "r \<in> set rows"
  shows "find (\<lambda>x. k x = k r) rows = Some r"
  using assms by (induction rows) (auto simp: rev_image_eqI)

lemma find_Some_in: "find P rows = Some r \<Longrightarrow> r \<in> set rows \<and> P r"
  by (auto simp: find_Some_iff)

lemma find_None_not: "find P rows = None \<longleftrightarrow> (\<forall>r \<in> set rows. \<not> P r)"
  by (auto simp: find_None_iff)

lemma find_append: "find P (xs @ ys) = (case find P xs of Some r \<Rightarrow> Some r | None \<Rightarrow> find P ys)"
  by (induction xs) auto

lemma find_update_where:
  assumes "\<And>r. Q (f r) = Q r"
  shows "find Q (update_where P f rows) = map_option (\<lambda>r. if P r then f r else r) (find Q rows)"
  by (induction rows) (auto simp: assms)

lemma rows_affected_key:
  assumes "distinct (map k rows)" and "r \<in> set rows"
  shows "rows_affected (\<lambda>x. k x = k r) rows = 1"
  using assms
  by (induction rows) (auto simp: rows_affected_def filter_empty_conv rev_image_eqI)

lemma rows_affected_0: "rows_affected P rows = 0 \<longleftrightarrow> (\<forall>r \<in> set rows. \<not> P r)"
  by (auto simp: rows_affected_def filter_empty_conv)

end
