(* ===== verification/Schema.thy ===== *)
theory Schema
  imports Wallet_Prelude
begin

text \<open>
  The relational schema (\<open>internal/store/schema.sql\<close>) and the SQL statements the store
  issues on it. A table is the list of its rows, a statement is a function from the
  database a session sees to a server error or the new database. The order of the checks
  is the one Postgres documents: parameters are converted first, then row \<open>CHECK\<close>s in the
  alphabetical order of their names, then unique indexes, then foreign keys.

  Not modelled: the surrogate key \<open>ledger_entries.id\<close> and the plain indexes, which no
  query of the program reads.
\<close>

section \<open>The server's scalar functions\<close>

text \<open>
  Functions of the database server and of the hash library that the program calls and that
  are not part of the repository. They are arguments of every definition that uses them:
  \<open>uuid_in\<close> converts a text to a \<open>uuid\<close> (represented by its output text), \<open>text_ok\<close> says
  whether the server accepts the bytes as text of its encoding, \<open>sha256\<close> is the hash.
\<close>

record pg =
  uuid_in :: "string \<Rightarrow> uuid option"
  text_ok :: "string \<Rightarrow> bool"
  sha256 :: "string \<Rightarrow> bytes"

text \<open>The documented property of \<open>uuid\<close> input: an output text is accepted and stands for itself.\<close>

definition canonical :: "pg \<Rightarrow> string \<Rightarrow> bool" where
  "canonical pg u \<longleftrightarrow> text_ok pg u \<and> uuid_in pg u = Some u"

section \<open>Rows and tables\<close>

record user_row =
  u_id :: uuid
  u_token_hash :: bytes
  u_created_at :: time

record wallet_row =
  w_id :: uuid
  w_user_id :: uuid
  w_balance_paise :: paise
  w_created_at :: time
  w_updated_at :: time

record transfer_row =
  t_id :: uuid
  t_idempotency_key :: string
  t_requester_user_id :: uuid
  t_from_wallet_id :: uuid
  t_to_wallet_id :: uuid
  t_amount_paise :: paise
  t_status :: string
  t_decline_reason :: "string option"
  t_request_fingerprint :: bytes
  t_created_at :: time
  t_completed_at :: "time option"

record ledger_row =
  l_transfer_id :: uuid
  l_wallet_id :: uuid
  l_delta_paise :: paise
  l_created_at :: time

record mint_row =
  m_id :: uuid
  m_idempotency_key :: string
  m_wallet_id :: uuid
  m_amount_paise :: paise
  m_created_at :: time

record db =
  users :: "user_row list"
  wallets :: "wallet_row list"
  transfers :: "transfer_row list"
  ledger_entries :: "ledger_row list"
  mints :: "mint_row list"

definition empty_db :: db where
  "empty_db = \<lparr>users = [], wallets = [], transfers = [], ledger_entries = [], mints = []\<rparr>"

section \<open>Server errors and parameter conversion\<close>

text \<open>\<open>pgconn.PgError\<close>: the SQLSTATE and the name of the violated constraint.\<close>

datatype pg_error = PgError (Code: string) (ConstraintName: string)

definition check_violation :: "string \<Rightarrow> pg_error" where
  "check_violation c = PgError ''23514'' c"

definition unique_violation :: "string \<Rightarrow> pg_error" where
  "unique_violation c = PgError ''23505'' c"

definition fk_violation :: "string \<Rightarrow> pg_error" where
  "fk_violation c = PgError ''23503'' c"

text \<open>A text parameter: bytes the server's encoding refuses (a zero byte, say) are 22021.\<close>

definition bind_text :: "pg \<Rightarrow> string \<Rightarrow> pg_error + string" where
  "bind_text pg s = (if text_ok pg s then Inr s else Inl (PgError ''22021'' ''''))"

text \<open>A text sent for a \<open>uuid\<close> parameter: not a uuid is 22P02.\<close>

definition bind_uuid :: "pg \<Rightarrow> string \<Rightarrow> pg_error + uuid" where
  "bind_uuid pg s =
     (if \<not> text_ok pg s then Inl (PgError ''22021'' '''')
      else case uuid_in pg s of None \<Rightarrow> Inl (PgError ''22P02'' '''') | Some u \<Rightarrow> Inr u)"

section \<open>Constraints\<close>

definition user_ids :: "db \<Rightarrow> uuid list" where
  "user_ids d = map u_id (users d)"

definition wallet_ids :: "db \<Rightarrow> uuid list" where
  "wallet_ids d = map w_id (wallets d)"

definition transfer_ids :: "db \<Rightarrow> uuid list" where
  "transfer_ids d = map t_id (transfers d)"

definition idem_key :: "transfer_row \<Rightarrow> uuid \<times> string" where
  "idem_key t = (t_requester_user_id t, t_idempotency_key t)"

text \<open>The first \<open>CHECK\<close> of each table that a row violates.\<close>

definition wallet_check :: "wallet_row \<Rightarrow> string option" where
  "wallet_check w = (if w_balance_paise w < 0 then Some ''wallets_balance_nonneg'' else None)"

definition decline_reason_ok :: "string \<Rightarrow> string option \<Rightarrow> bool" where
  "decline_reason_ok st r \<longleftrightarrow>
     (st = ''declined'' \<and> r \<noteq> None) \<or> (st \<noteq> ''declined'' \<and> r = None)"

definition transfer_check :: "transfer_row \<Rightarrow> string option" where
  "transfer_check t =
     (if t_amount_paise t \<le> 0 then Some ''transfers_amount_positive''
      else if \<not> decline_reason_ok (t_status t) (t_decline_reason t)
        then Some ''transfers_decline_reason''
      else if t_from_wallet_id t = t_to_wallet_id t then Some ''transfers_no_self''
      else if t_status t \<notin> {''pending'', ''succeeded'', ''declined''}
        then Some ''transfers_status_valid''
      else None)"

definition ledger_check :: "ledger_row \<Rightarrow> string option" where
  "ledger_check l = (if l_delta_paise l = 0 then Some ''ledger_delta_nonzero'' else None)"

definition mint_check :: "mint_row \<Rightarrow> string option" where
  "mint_check m = (if m_amount_paise m \<le> 0 then Some ''mints_amount_positive'' else None)"

text \<open>The first unique index, and the first foreign key, that a new transfer violates.\<close>

definition transfer_unique :: "db \<Rightarrow> transfer_row \<Rightarrow> string option" where
  "transfer_unique d t =
     (if t_id t \<in> set (transfer_ids d) then Some ''transfers_pkey''
      else if idem_key t \<in> set (map idem_key (transfers d)) then Some ''transfers_idem_key''
      else None)"

definition transfer_fk :: "db \<Rightarrow> transfer_row \<Rightarrow> string option" where
  "transfer_fk d t =
     (if t_requester_user_id t \<notin> set (user_ids d) then Some ''transfers_requester_user_id_fkey''
      else if t_from_wallet_id t \<notin> set (wallet_ids d) then Some ''transfers_from_wallet_id_fkey''
      else if t_to_wallet_id t \<notin> set (wallet_ids d) then Some ''transfers_to_wallet_id_fkey''
      else None)"

definition ledger_fk :: "db \<Rightarrow> ledger_row \<Rightarrow> string option" where
  "ledger_fk d l =
     (if l_transfer_id l \<notin> set (transfer_ids d) then Some ''ledger_entries_transfer_id_fkey''
      else if l_wallet_id l \<notin> set (wallet_ids d) then Some ''ledger_entries_wallet_id_fkey''
      else None)"

section \<open>Inserts\<close>

definition insert_user :: "user_row \<Rightarrow> db \<Rightarrow> pg_error + db" where
  "insert_user u d =
     (if u_id u \<in> set (user_ids d) then Inl (unique_violation ''users_pkey'')
      else if u_token_hash u \<in> set (map u_token_hash (users d))
        then Inl (unique_violation ''users_token_hash_key'')
      else Inr (d\<lparr>users := users d @ [u]\<rparr>))"

definition insert_wallet :: "wallet_row \<Rightarrow> db \<Rightarrow> pg_error + db" where
  "insert_wallet w d =
     (case wallet_check w of Some c \<Rightarrow> Inl (check_violation c) | None \<Rightarrow>
      if w_id w \<in> set (wallet_ids d) then Inl (unique_violation ''wallets_pkey'')
      else if w_user_id w \<in> set (map w_user_id (wallets d))
        then Inl (unique_violation ''wallets_user_id_key'')
      else if w_user_id w \<notin> set (user_ids d) then Inl (fk_violation ''wallets_user_id_fkey'')
      else Inr (d\<lparr>wallets := wallets d @ [w]\<rparr>))"

definition insert_transfer :: "transfer_row \<Rightarrow> db \<Rightarrow> pg_error + db" where
  "insert_transfer t d =
     (case transfer_check t of Some c \<Rightarrow> Inl (check_violation c) | None \<Rightarrow>
      case transfer_unique d t of Some c \<Rightarrow> Inl (unique_violation c) | None \<Rightarrow>
      case transfer_fk d t of Some c \<Rightarrow> Inl (fk_violation c) | None \<Rightarrow>
      Inr (d\<lparr>transfers := transfers d @ [t]\<rparr>))"

text \<open>A multi-row \<open>INSERT\<close>: every row's \<open>CHECK\<close>s, then every row's foreign keys.\<close>

definition insert_ledger :: "ledger_row list \<Rightarrow> db \<Rightarrow> pg_error + db" where
  "insert_ledger ls d =
     (case first_some (map ledger_check ls) of Some c \<Rightarrow> Inl (check_violation c) | None \<Rightarrow>
      case first_some (map (ledger_fk d) ls) of Some c \<Rightarrow> Inl (fk_violation c) | None \<Rightarrow>
      Inr (d\<lparr>ledger_entries := ledger_entries d @ ls\<rparr>))"

definition insert_mint :: "mint_row \<Rightarrow> db \<Rightarrow> pg_error + db" where
  "insert_mint m d =
     (case mint_check m of Some c \<Rightarrow> Inl (check_violation c) | None \<Rightarrow>
      if m_id m \<in> set (map m_id (mints d)) then Inl (unique_violation ''mints_pkey'')
      else if m_idempotency_key m \<in> set (map m_idempotency_key (mints d))
        then Inl (unique_violation ''mints_idem_key'')
      else if m_wallet_id m \<notin> set (wallet_ids d) then Inl (fk_violation ''mints_wallet_id_fkey'')
      else Inr (d\<lparr>mints := mints d @ [m]\<rparr>))"

section \<open>Updates\<close>

text \<open>
  \<open>UPDATE wallets SET balance_paise = balance_paise + delta, updated_at = now() WHERE P\<close>:
  a sum outside \<open>bigint\<close> is error 22003, a negative one violates the \<open>CHECK\<close>; the result
  carries the number of affected rows.
\<close>

definition add_balance :: "paise \<Rightarrow> time \<Rightarrow> wallet_row \<Rightarrow> wallet_row" where
  "add_balance delta now w =
     w\<lparr>w_balance_paise := w_balance_paise w + delta, w_updated_at := now\<rparr>"

definition update_balance :: "(wallet_row \<Rightarrow> bool) \<Rightarrow> paise \<Rightarrow> time \<Rightarrow> db \<Rightarrow> pg_error + (nat \<times> db)" where
  "update_balance P delta now d =
     (let hit = filter P (wallets d) in
      if list_ex (\<lambda>w. \<not> in_int64 (w_balance_paise w + delta)) hit then Inl (PgError ''22003'' '''')
      else if list_ex (\<lambda>w. wallet_check (add_balance delta now w) \<noteq> None) hit
        then Inl (check_violation ''wallets_balance_nonneg'')
      else Inr (length hit, d\<lparr>wallets := update_where P (add_balance delta now) (wallets d)\<rparr>))"

text \<open>
  \<open>UPDATE transfers SET ... WHERE id = i\<close>: every hit row must satisfy the \<open>CHECK\<close>s again.
  The two row changes the store makes set the terminal status and \<open>completed_at\<close>.
\<close>

definition decline_row :: "string \<Rightarrow> time \<Rightarrow> transfer_row \<Rightarrow> transfer_row" where
  "decline_row reason now t =
     t\<lparr>t_status := ''declined'', t_decline_reason := Some reason, t_completed_at := Some now\<rparr>"

definition succeed_row :: "time \<Rightarrow> transfer_row \<Rightarrow> transfer_row" where
  "succeed_row now t = t\<lparr>t_status := ''succeeded'', t_completed_at := Some now\<rparr>"

definition update_transfer ::
  "uuid \<Rightarrow> (transfer_row \<Rightarrow> transfer_row) \<Rightarrow> db \<Rightarrow> pg_error + (nat \<times> db)" where
  "update_transfer i f d =
     (let hit = filter (\<lambda>t. t_id t = i) (transfers d) in
      case first_some (map (\<lambda>t. transfer_check (f t)) hit) of
        Some c \<Rightarrow> Inl (check_violation c)
      | None \<Rightarrow> Inr (length hit,
               d\<lparr>transfers := update_where (\<lambda>t. t_id t = i) f (transfers d)\<rparr>))"

section \<open>The schema as a predicate on databases\<close>

definition users_ok :: "db \<Rightarrow> bool" where
  "users_ok d \<longleftrightarrow> distinct (user_ids d) \<and> distinct (map u_token_hash (users d))"

definition wallets_ok :: "db \<Rightarrow> bool" where
  "wallets_ok d \<longleftrightarrow> distinct (wallet_ids d) \<and> distinct (map w_user_id (wallets d)) \<and>
     (\<forall>w \<in> set (wallets d). w_user_id w \<in> set (user_ids d) \<and> 0 \<le> w_balance_paise w \<and>
        w_balance_paise w \<le> int64_max)"

definition transfers_ok :: "db \<Rightarrow> bool" where
  "transfers_ok d \<longleftrightarrow> distinct (transfer_ids d) \<and> distinct (map idem_key (transfers d)) \<and>
     (\<forall>t \<in> set (transfers d). transfer_check t = None \<and> transfer_fk d t = None)"

definition ledger_ok :: "db \<Rightarrow> bool" where
  "ledger_ok d \<longleftrightarrow> (\<forall>l \<in> set (ledger_entries d). ledger_check l = None \<and> ledger_fk d l = None)"

definition mints_ok :: "db \<Rightarrow> bool" where
  "mints_ok d \<longleftrightarrow> distinct (map m_id (mints d)) \<and> distinct (map m_idempotency_key (mints d)) \<and>
     (\<forall>m \<in> set (mints d). 0 < m_amount_paise m \<and> m_wallet_id m \<in> set (wallet_ids d))"

definition schema_ok :: "db \<Rightarrow> bool" where
  "schema_ok d \<longleftrightarrow> users_ok d \<and> wallets_ok d \<and> transfers_ok d \<and> ledger_ok d \<and> mints_ok d"


section \<open>Lemmas: what a statement that succeeds has done\<close>

lemmas schema_preds [schema_simps] =
  schema_ok_def users_ok_def wallets_ok_def transfers_ok_def ledger_ok_def mints_ok_def

lemma insert_user_Inr:
  "insert_user u d = Inr d' \<longleftrightarrow> u_id u \<notin> set (user_ids d) \<and>
     u_token_hash u \<notin> set (map u_token_hash (users d)) \<and> d' = d\<lparr>users := users d @ [u]\<rparr>"
  by (auto simp: insert_user_def)

lemma insert_wallet_Inr:
  "insert_wallet w d = Inr d' \<longleftrightarrow> wallet_check w = None \<and> w_id w \<notin> set (wallet_ids d) \<and>
     w_user_id w \<notin> set (map w_user_id (wallets d)) \<and> w_user_id w \<in> set (user_ids d) \<and>
     d' = d\<lparr>wallets := wallets d @ [w]\<rparr>"
  by (auto simp: insert_wallet_def split: option.split)

lemma insert_transfer_Inr:
  "insert_transfer t d = Inr d' \<longleftrightarrow> transfer_check t = None \<and> transfer_unique d t = None \<and>
     transfer_fk d t = None \<and> d' = d\<lparr>transfers := transfers d @ [t]\<rparr>"
  by (auto simp: insert_transfer_def split: option.split)

lemma insert_ledger_Inr:
  "insert_ledger ls d = Inr d' \<longleftrightarrow> (\<forall>l \<in> set ls. ledger_check l = None \<and> ledger_fk d l = None) \<and>
     d' = d\<lparr>ledger_entries := ledger_entries d @ ls\<rparr>"
  by (auto simp: insert_ledger_def case_first_some_Inr)

lemma insert_mint_Inr:
  "insert_mint m d = Inr d' \<longleftrightarrow> mint_check m = None \<and> m_id m \<notin> set (map m_id (mints d)) \<and>
     m_idempotency_key m \<notin> set (map m_idempotency_key (mints d)) \<and>
     m_wallet_id m \<in> set (wallet_ids d) \<and> d' = d\<lparr>mints := mints d @ [m]\<rparr>"
  by (auto simp: insert_mint_def split: option.split)

lemma update_balance_Inr:
  "update_balance P delta now d = Inr (n, d') \<longleftrightarrow>
     (\<forall>w \<in> set (wallets d). P w \<longrightarrow> in_int64 (w_balance_paise w + delta) \<and> 0 \<le> w_balance_paise w + delta) \<and>
     n = rows_affected P (wallets d) \<and>
     d' = d\<lparr>wallets := update_where P (add_balance delta now) (wallets d)\<rparr>"
  by (auto simp: update_balance_def Let_def list_ex_iff rows_affected_def wallet_check_def
      add_balance_def not_less [symmetric] split: if_splits)

lemma update_transfer_Inr:
  "update_transfer i f d = Inr (n, d') \<longleftrightarrow>
     (\<forall>t \<in> set (transfers d). t_id t = i \<longrightarrow> transfer_check (f t) = None) \<and>
     n = rows_affected (\<lambda>t. t_id t = i) (transfers d) \<and>
     d' = d\<lparr>transfers := update_where (\<lambda>t. t_id t = i) f (transfers d)\<rparr>"
  by (auto simp: update_transfer_def Let_def rows_affected_def case_first_some_Inr)

lemmas stmt_Inr = insert_user_Inr insert_wallet_Inr insert_transfer_Inr insert_ledger_Inr
  insert_mint_Inr update_balance_Inr update_transfer_Inr

lemmas id_lists = user_ids_def wallet_ids_def transfer_ids_def

section \<open>Lemmas: keys under updates\<close>

lemma add_balance_sel [simp]:
  "w_id (add_balance delta now w) = w_id w"
  "w_user_id (add_balance delta now w) = w_user_id w"
  "w_balance_paise (add_balance delta now w) = w_balance_paise w + delta"
  "w_created_at (add_balance delta now w) = w_created_at w"
  by (simp_all add: add_balance_def)

lemma wallet_ids_update [simp]:
  "map w_id (update_where P (add_balance delta now) ws) = map w_id ws"
  "map w_user_id (update_where P (add_balance delta now) ws) = map w_user_id ws"
  by (simp_all add: map_update_where_same)

section \<open>Lemmas: every statement keeps the schema\<close>

lemma transfer_fk_None [schema_simps]:
  "transfer_fk d t = None \<longleftrightarrow> t_requester_user_id t \<in> set (user_ids d) \<and>
     t_from_wallet_id t \<in> set (wallet_ids d) \<and> t_to_wallet_id t \<in> set (wallet_ids d)"
  by (simp add: transfer_fk_def)

lemma ledger_fk_None [schema_simps]:
  "ledger_fk d l = None \<longleftrightarrow> l_transfer_id l \<in> set (transfer_ids d) \<and> l_wallet_id l \<in> set (wallet_ids d)"
  by (simp add: ledger_fk_def)

lemma transfer_unique_None [schema_simps]:
  "transfer_unique d t = None \<longleftrightarrow> t_id t \<notin> set (transfer_ids d) \<and> idem_key t \<notin> set (map idem_key (transfers d))"
  by (simp add: transfer_unique_def)

lemma wallet_check_None [schema_simps]: "wallet_check w = None \<longleftrightarrow> 0 \<le> w_balance_paise w"
  by (auto simp: wallet_check_def)

lemma mint_check_None [schema_simps]: "mint_check m = None \<longleftrightarrow> 0 < m_amount_paise m"
  by (auto simp: mint_check_def)

lemma ids_update [simp]:
  "user_ids (d\<lparr>wallets := ws\<rparr>) = user_ids d" "user_ids (d\<lparr>transfers := ts\<rparr>) = user_ids d"
  "user_ids (d\<lparr>ledger_entries := ls\<rparr>) = user_ids d" "user_ids (d\<lparr>mints := ms\<rparr>) = user_ids d"
  "user_ids (d\<lparr>users := us\<rparr>) = map u_id us"
  "wallet_ids (d\<lparr>users := us\<rparr>) = wallet_ids d" "wallet_ids (d\<lparr>transfers := ts\<rparr>) = wallet_ids d"
  "wallet_ids (d\<lparr>ledger_entries := ls\<rparr>) = wallet_ids d" "wallet_ids (d\<lparr>mints := ms\<rparr>) = wallet_ids d"
  "wallet_ids (d\<lparr>wallets := ws\<rparr>) = map w_id ws"
  "transfer_ids (d\<lparr>users := us\<rparr>) = transfer_ids d" "transfer_ids (d\<lparr>wallets := ws\<rparr>) = transfer_ids d"
  "transfer_ids (d\<lparr>ledger_entries := ls\<rparr>) = transfer_ids d" "transfer_ids (d\<lparr>mints := ms\<rparr>) = transfer_ids d"
  "transfer_ids (d\<lparr>transfers := ts\<rparr>) = map t_id ts"
  by (simp_all add: user_ids_def wallet_ids_def transfer_ids_def)

lemma wallet_ids_iff: "i \<in> set (wallet_ids d) \<longleftrightarrow> (\<exists>w \<in> set (wallets d). w_id w = i)"
  by (auto simp: wallet_ids_def)

lemma transfer_ids_iff: "i \<in> set (transfer_ids d) \<longleftrightarrow> (\<exists>t \<in> set (transfers d). t_id t = i)"
  by (auto simp: transfer_ids_def)

lemma ids_fold [simp]:
  "map u_id (users d) = user_ids d" "map w_id (wallets d) = wallet_ids d"
  "map t_id (transfers d) = transfer_ids d"
  "u_id ` set (users d) = set (user_ids d)" "w_id ` set (wallets d) = set (wallet_ids d)"
  "t_id ` set (transfers d) = set (transfer_ids d)"
  by (simp_all add: user_ids_def wallet_ids_def transfer_ids_def)

lemma insert_user_schema:
  assumes "insert_user u d = Inr d'" and "schema_ok d"
  shows "schema_ok d'"
  using assms by (simp add: stmt_Inr schema_simps)

lemma insert_wallet_schema:
  assumes "insert_wallet w d = Inr d'" and "schema_ok d" and "w_balance_paise w \<le> int64_max"
  shows "schema_ok d'"
  using assms by (simp add: stmt_Inr schema_simps)

lemma insert_transfer_schema:
  assumes "insert_transfer t d = Inr d'" and "schema_ok d"
  shows "schema_ok d'"
  using assms by (simp add: stmt_Inr schema_simps)

lemma insert_ledger_schema:
  assumes "insert_ledger ls d = Inr d'" and "schema_ok d"
  shows "schema_ok d'"
  using assms by (simp add: stmt_Inr schema_simps) blast

lemma insert_mint_schema:
  assumes "insert_mint m d = Inr d'" and "schema_ok d"
  shows "schema_ok d'"
  using assms by (simp add: stmt_Inr schema_simps)

lemma update_balance_schema:
  assumes "update_balance P delta now d = Inr (n, d')" and "schema_ok d"
  shows "schema_ok d'"
proof -
  have "wallets_ok d'"
    using assms by (auto simp: stmt_Inr schema_simps set_update_where in_int64_def)
  then show ?thesis
    using assms by (simp add: stmt_Inr schema_simps)
qed

lemmas stmt_schema = insert_user_schema insert_wallet_schema insert_transfer_schema
  insert_ledger_schema insert_mint_schema update_balance_schema

lemma schema_ok_empty: "schema_ok empty_db"
  by (simp add: schema_simps empty_db_def id_lists)

end
