(* ===== verification/Store.thy ===== *)
theory Store
  imports Schema
begin

text \<open>
  Package \<open>store\<close>, file \<open>store.go\<close>: the sentinel errors, the SQLSTATE helpers, the domain
  types, the request fingerprint, and \<open>inTx\<close>, the bounded retry loop around a transaction.
  Statements run on the session's working copy of the database; \<open>inTx\<close> publishes the copy
  when the commit succeeds and drops it on every other path.

  The outside world enters through a \<open>txenv\<close>: for every attempt, whether \<open>BeginTx\<close>
  fails, which statement the server aborts, how the commit ends, whether the caller's
  context is done, the transaction timestamp and the identifier that \<open>gen_random_uuid()\<close>
  draws. Theorems hold for every \<open>txenv\<close>.
\<close>

section \<open>Errors\<close>

text \<open>
  \<open>Pg\<close> is an error reported by the server, \<open>ErrNoRows\<close> is \<open>pgx.ErrNoRows\<close>, \<open>ErrConn\<close> a
  failure with no SQLSTATE (a lost connection, a cancelled context), \<open>ErrScan\<close> a value that
  does not fit its Go variable, \<open>TxFailed\<close> the wrapped error after the last attempt.
\<close>

datatype error =
    ErrWalletNotFound
  | ErrTransferNotFound
  | ErrIdempotencyConflict
  | ErrSameWallet
  | ErrNotOwner
  | errReplay
  | errDebitLost
  | Pg pg_error
  | ErrNoRows
  | ErrConn
  | ErrCtx
  | ErrScan
  | TxFailed "error option"

definition sqlstateUniqueViolation :: string where
  "sqlstateUniqueViolation = ''23505''"

definition sqlstateCheckViolation :: string where
  "sqlstateCheckViolation = ''23514''"

definition sqlstateForeignKeyViolation :: string where
  "sqlstateForeignKeyViolation = ''23503''"

definition sqlstateDeadlockDetected :: string where
  "sqlstateDeadlockDetected = ''40P01''"

definition sqlstateSerializationFail :: string where
  "sqlstateSerializationFail = ''40001''"

text \<open>\<open>errors.As\<close> looks through wrapped errors.\<close>

fun as_pg_error :: "error \<Rightarrow> pg_error option" where
  "as_pg_error (Pg e) = Some e"
| "as_pg_error (TxFailed (Some e)) = as_pg_error e"
| "as_pg_error _ = None"

definition sqlstate :: "error \<Rightarrow> string" where
  "sqlstate e = (case as_pg_error e of Some pe \<Rightarrow> Code pe | None \<Rightarrow> '''')"

definition constraintName :: "error \<Rightarrow> string" where
  "constraintName e = (case as_pg_error e of Some pe \<Rightarrow> ConstraintName pe | None \<Rightarrow> '''')"

text \<open>\<open>errors.Is\<close> on a sentinel, through wrapped errors.\<close>

fun errors_Is :: "error \<Rightarrow> error \<Rightarrow> bool" where
  "errors_Is (TxFailed (Some e)) target \<longleftrightarrow> TxFailed (Some e) = target \<or> errors_Is e target"
| "errors_Is e target \<longleftrightarrow> e = target"

definition isTransient :: "error \<Rightarrow> bool" where
  "isTransient e \<longleftrightarrow>
     sqlstate e = sqlstateDeadlockDetected \<or> sqlstate e = sqlstateSerializationFail"

section \<open>Domain types\<close>

record Wallet =
  ID :: string
  UserID :: string
  BalancePaise :: paise
  CreatedAt :: time

record Transfer =
  TID :: string
  Status :: string
  DeclineReason :: "string option"
  FromWalletID :: string
  ToWalletID :: string
  AmountPaise :: paise
  IdempotencyKey :: string
  TCreatedAt :: time
  CompletedAt :: "time option"

definition StatusSucceeded :: string where
  "StatusSucceeded = ''succeeded''"

definition StatusDeclined :: string where
  "StatusDeclined = ''declined''"

definition ReasonInsufficientFunds :: string where
  "ReasonInsufficientFunds = ''insufficient_funds''"

record TransferResult =
  transfer :: Transfer
  Replay :: bool

text \<open>The bytes that are hashed: \<open>"v1|%s|%s|%d"\<close>.\<close>

definition fingerprint_text :: "string \<Rightarrow> string \<Rightarrow> paise \<Rightarrow> string" where
  "fingerprint_text from to amountPaise =
     ''v1|'' @ from @ ''|'' @ to @ ''|'' @ show_int amountPaise"

definition Fingerprint :: "pg \<Rightarrow> string \<Rightarrow> string \<Rightarrow> paise \<Rightarrow> bytes" where
  "Fingerprint pg from to amountPaise = sha256 pg (fingerprint_text from to amountPaise)"

section \<open>Transactions\<close>

text \<open>
  Failures that are not caused by the statement itself: the two aborts that a retry can fix, a
  lost connection, and every other state that the server may report at any time (a shutdown, too
  many connections, a full disk, a cancelled query). The states that the model of a statement
  reports itself do not come from there; \<open>XX000\<close> stands for them.
\<close>

datatype fault = Deadlock | SerializationFailure | ConnectionLost | ServerFault string

definition statement_states :: "string list" where
  "statement_states = [''40P01'', ''40001'', ''23505'', ''23503'', ''23514'', ''22P02'', ''22003'', ''22021'']"

fun fault_error :: "fault \<Rightarrow> error" where
  "fault_error Deadlock = Pg (PgError ''40P01'' '''')"
| "fault_error SerializationFailure = Pg (PgError ''40001'' '''')"
| "fault_error ConnectionLost = ErrConn"
| "fault_error (ServerFault st) = Pg (PgError (if st \<in> set statement_states then ''XX000'' else st) '''')"

text \<open>
  How a \<open>COMMIT\<close> ends: it takes effect; the server reports that it rolled back; or the
  connection is lost while waiting for the answer, with the effect on or off the server.
\<close>

datatype commit_outcome = CommitOk | CommitAborted fault | CommitUnknown bool

record txenv =
  begin_fault :: "nat \<Rightarrow> fault option"
  stmt_fault :: "nat \<Rightarrow> nat \<Rightarrow> fault option"
  commit_result :: "nat \<Rightarrow> commit_outcome"
  ctx_done :: "nat \<Rightarrow> bool"
  tx_now :: "nat \<Rightarrow> time"
  new_uuid :: "nat \<Rightarrow> uuid"

text \<open>Statement number \<open>k\<close> of attempt \<open>a\<close>: the server may abort it before it runs.\<close>

definition stmt :: "txenv \<Rightarrow> nat \<Rightarrow> nat \<Rightarrow> (pg_error + 'a) \<Rightarrow> error + 'a" where
  "stmt env a k r =
     (case stmt_fault env a k of
        Some f \<Rightarrow> Inl (fault_error f)
      | None \<Rightarrow> (case r of Inl e \<Rightarrow> Inl (Pg e) | Inr x \<Rightarrow> Inr x))"

definition maxTxAttempts :: nat where
  "maxTxAttempts = 5"

text \<open>
  The loop of \<open>inTx\<close>. \<open>fn\<close> is the body: it takes the attempt number, the captured
  variables \<open>v\<close> and the working copy, and returns the captured variables, an error or
  \<open>nil\<close>, and the working copy. \<open>n\<close> counts the attempts left, \<open>a\<close> is \<open>attempt\<close>, \<open>err\<close>
  the last error. The last component of the result is the trace of \<open>onRetry\<close> calls: the
  SQLSTATE reported and the milliseconds waited.
\<close>

type_synonym retries = "(string \<times> nat) list"

type_synonym ('v, 'd) tx_body = "nat \<Rightarrow> 'v \<Rightarrow> 'd \<Rightarrow> 'v \<times> error option \<times> 'd"

definition nil_sqlstate :: "error option \<Rightarrow> string" where
  "nil_sqlstate err = (case err of Some e \<Rightarrow> sqlstate e | None \<Rightarrow> '''')"

fun inTx_loop ::
  "txenv \<Rightarrow> ('v, 'd) tx_body \<Rightarrow> nat \<Rightarrow> nat \<Rightarrow> error option \<Rightarrow> 'v \<Rightarrow> 'd \<Rightarrow> retries
     \<Rightarrow> 'v \<times> error option \<times> 'd \<times> retries" where
  "inTx_loop env fn 0 a err v d rs = (v, Some (TxFailed err), d, rs)"
| "inTx_loop env fn (Suc n) a err v d rs =
     (let rs' = (if 0 < a then rs @ [(nil_sqlstate err, a * a * 2)] else rs) in
      if 0 < a \<and> ctx_done env a then (v, Some ErrCtx, d, rs')
      else case begin_fault env a of
        Some f \<Rightarrow>
          (if isTransient (fault_error f)
           then inTx_loop env fn n (Suc a) (Some (fault_error f)) v d rs'
           else (v, Some (fault_error f), d, rs'))
      | None \<Rightarrow>
          (case fn a v d of
             (v', Some e, _) \<Rightarrow>
               (if isTransient e then inTx_loop env fn n (Suc a) (Some e) v' d rs'
                else (v', Some e, d, rs'))
           | (v', None, d') \<Rightarrow>
               (case commit_result env a of
                  CommitOk \<Rightarrow> (v', None, d', rs')
                | CommitAborted f \<Rightarrow>
                    (if isTransient (fault_error f)
                     then inTx_loop env fn n (Suc a) (Some (fault_error f)) v' d rs'
                     else (v', Some (fault_error f), d, rs'))
                | CommitUnknown applied \<Rightarrow>
                    (v', Some ErrConn, if applied then d' else d, rs'))))"

definition inTx ::
  "txenv \<Rightarrow> ('v, 'd) tx_body \<Rightarrow> 'v \<Rightarrow> 'd \<Rightarrow> 'v \<times> error option \<times> 'd \<times> retries" where
  "inTx env fn v d = inTx_loop env fn maxTxAttempts 0 None v d []"

text \<open>A \<open>txenv\<close> in which nothing fails.\<close>

definition quiet :: "time \<Rightarrow> uuid \<Rightarrow> txenv" where
  "quiet now u =
     \<lparr>begin_fault = (\<lambda>_. None), stmt_fault = (\<lambda>_ _. None), commit_result = (\<lambda>_. CommitOk),
      ctx_done = (\<lambda>_. False), tx_now = (\<lambda>_. now), new_uuid = (\<lambda>_. u)\<rparr>"

section \<open>Lemmas: errors\<close>

lemmas sqlstate_defs = sqlstateUniqueViolation_def sqlstateCheckViolation_def
  sqlstateForeignKeyViolation_def sqlstateDeadlockDetected_def sqlstateSerializationFail_def

lemma sqlstate_simps [simp]:
  "sqlstate (Pg (PgError c n)) = c"
  "constraintName (Pg (PgError c n)) = n"
  "sqlstate (TxFailed (Some e)) = sqlstate e"
  "sqlstate ErrConn = ''''" "sqlstate ErrCtx = ''''" "sqlstate ErrNoRows = ''''"
  "sqlstate ErrWalletNotFound = ''''" "sqlstate errReplay = ''''" "sqlstate errDebitLost = ''''"
  by (simp_all add: sqlstate_def constraintName_def)

lemma isTransient_fault [simp]:
  "isTransient (fault_error f) \<longleftrightarrow> f = Deadlock \<or> f = SerializationFailure"
  by (cases f) (auto simp: isTransient_def sqlstate_defs statement_states_def)

lemma isTransient_simps [simp]:
  "\<not> isTransient ErrConn" "\<not> isTransient ErrWalletNotFound" "\<not> isTransient errReplay"
  "\<not> isTransient errDebitLost" "\<not> isTransient ErrNoRows"
  "isTransient (Pg (PgError c n)) \<longleftrightarrow> c = ''40P01'' \<or> c = ''40001''"
  by (simp_all add: isTransient_def sqlstate_defs)

lemma fault_error_neq [simp]:
  "fault_error f \<noteq> errReplay" "fault_error f \<noteq> ErrNoRows" "fault_error f \<noteq> ErrWalletNotFound"
  "fault_error f \<noteq> errDebitLost" "fault_error f \<noteq> ErrIdempotencyConflict"
  "fault_error f \<noteq> ErrSameWallet" "fault_error f \<noteq> ErrTransferNotFound"
  by (cases f; simp)+

lemma fault_sqlstate [simp]:
  "sqlstate (fault_error f) \<noteq> ''23505''" "sqlstate (fault_error f) \<noteq> ''23503''" "sqlstate (fault_error f) \<noteq> ''22P02''"
  by (cases f; auto simp: statement_states_def)+

lemma stmt_Inr_iff: "stmt env a k r = Inr x \<longleftrightarrow> stmt_fault env a k = None \<and> r = Inr x"
  by (auto simp: stmt_def split: option.split sum.split)

lemma stmt_quiet [simp]:
  "stmt (quiet now u) a k (Inr x) = Inr x" "stmt (quiet now u) a k (Inl e) = Inl (Pg e)"
  "tx_now (quiet now u) a = now" "new_uuid (quiet now u) a = u"
  by (simp_all add: stmt_def quiet_def)

section \<open>Lemmas: the transaction loop\<close>

text \<open>One iteration of the loop, by the way it ends.\<close>

definition noted :: "nat \<Rightarrow> error option \<Rightarrow> retries \<Rightarrow> retries" where
  "noted a err rs = (if 0 < a then rs @ [(nil_sqlstate err, a * a * 2)] else rs)"

lemma inTx_loop_Suc_cases:
  assumes "inTx_loop env fn (Suc n) a err v d rs = (v', r, d', rs')"
  obtains (ctx) "r = Some ErrCtx" "d' = d" "rs' = noted a err rs"
  | (fault) f where "r = Some (fault_error f)" "d' = d" "rs' = noted a err rs"
  | (body) e w where "fn a v d = (v', Some e, w)" "r = Some e" "d' = d" "rs' = noted a err rs"
  | (ok) "begin_fault env a = None" "fn a v d = (v', None, d')" "commit_result env a = CommitOk"
      "r = None" "rs' = noted a err rs"
  | (unknown) applied d1 where "begin_fault env a = None" "fn a v d = (v', None, d1)"
      "commit_result env a = CommitUnknown applied" "r = Some ErrConn"
      "d' = (if applied then d1 else d)" "rs' = noted a err rs"
  | (again) err1 v1 where "inTx_loop env fn n (Suc a) err1 v1 d (noted a err rs) = (v', r, d', rs')"
proof -
  note eq = assms [unfolded inTx_loop.simps(2) Let_def noted_def [symmetric]]
  show ?thesis
  proof (cases "0 < a \<and> ctx_done env a")
    case True
    with eq show ?thesis by (intro ctx) (simp_all)
  next
    case no_ctx: False
    show ?thesis
    proof (cases "begin_fault env a")
      case (Some f)
      show ?thesis
      proof (cases "isTransient (fault_error f)")
        case True
        with eq no_ctx Some show ?thesis by (intro again) (simp del: isTransient_fault)
      next
        case False
        with eq no_ctx Some show ?thesis
          by (intro fault [of f]) (simp_all del: isTransient_fault)
      qed
    next
      case begun: None
      obtain w x y where fn: "fn a v d = (w, x, y)" by (cases "fn a v d")
      show ?thesis
      proof (cases x)
        case (Some e)
        with eq no_ctx begun fn show ?thesis
          by (cases "isTransient e")
            (intro again, simp,
             intro body [of e y], simp_all)
      next
        case no_err: None
        show ?thesis
        proof (cases "commit_result env a")
          case CommitOk
          with eq no_ctx begun fn no_err show ?thesis
            by (intro ok) (simp_all)
        next
          case (CommitAborted f)
          with eq no_ctx begun fn no_err show ?thesis
            by (cases "isTransient (fault_error f)")
              (intro again, simp del: isTransient_fault,
               intro fault [of f], simp_all del: isTransient_fault)
        next
          case (CommitUnknown applied)
          with eq no_ctx begun fn no_err show ?thesis
            by (intro unknown [of y applied]) (simp_all)
        qed
      qed
    qed
  qed
qed

text \<open>
  The loop either leaves the database as it was and reports an error, or publishes what the
  body made of the original database in one attempt.
\<close>

lemma inTx_loop_cases:
  assumes "inTx_loop env fn n a err v d rs = (v', r, d', rs')"
  shows "d' = d \<and> r \<noteq> None \<or>
    (\<exists>b v0. b < a + n \<and> begin_fault env b = None \<and> fn b v0 d = (v', None, d') \<and>
       (r = None \<and> commit_result env b = CommitOk \<or>
        r = Some ErrConn \<and> commit_result env b = CommitUnknown True))"
  using assms
proof (induction n arbitrary: a err v rs)
  case 0
  then show ?case by auto
next
  case (Suc n)
  from Suc.prems show ?case
  proof (cases rule: inTx_loop_Suc_cases)
    case (again err1 v1)
    from Suc.IH [OF again] show ?thesis by simp
  next
    case ok
    then show ?thesis by (intro disjI2 exI [of _ a] exI [of _ v]) simp
  next
    case (unknown applied d1)
    then show ?thesis
      by (cases applied) (intro disjI2 exI [of _ a] exI [of _ v], simp, simp)
  qed simp_all
qed

lemma inTx_cases:
  assumes "inTx env fn v d = (v', r, d', rs)"
  obtains (failed) "d' = d" "r \<noteq> None"
  | (committed) b v0 where "b < maxTxAttempts" "begin_fault env b = None" "fn b v0 d = (v', None, d')"
      "r = None \<and> commit_result env b = CommitOk \<or>
       r = Some ErrConn \<and> commit_result env b = CommitUnknown True"
  using inTx_loop_cases [OF assms [unfolded inTx_def]] by auto

lemma inTx_loop_error_source:
  assumes "inTx_loop env fn n a err v d rs = (v', Some e, d', rs')" and "e \<notin> range fault_error"
    and "e \<noteq> ErrCtx" and "e \<notin> range TxFailed"
  shows "d' = d \<and> (\<exists>b v0 w. fn b v0 d = (v', Some e, w))"
  using assms
proof (induction n arbitrary: a err v rs)
  case 0
  then show ?case by auto
next
  case (Suc n)
  have conn: "e \<noteq> ErrConn" using Suc.prems(2) by (metis fault_error.simps(3) rangeI)
  from Suc.prems(1) show ?case
  proof (cases rule: inTx_loop_Suc_cases)
    case (again err1 v1)
    from Suc.IH [OF again Suc.prems(2-4)] show ?thesis .
  qed (use Suc.prems conn in auto)
qed

lemma inTx_first:
  assumes "begin_fault env 0 = None" and "fn 0 v d = (v', None, d')" and "commit_result env 0 = CommitOk"
  shows "inTx env fn v d = (v', None, d', [])"
  using assms by (simp add: inTx_def maxTxAttempts_def eval_nat_numeral)

lemma inTx_first_error:
  assumes "begin_fault env 0 = None" and "fn 0 v d = (v', Some e, w)" and "\<not> isTransient e"
  shows "inTx env fn v d = (v', Some e, d, [])"
  using assms by (simp add: inTx_def maxTxAttempts_def eval_nat_numeral)

text \<open>An attempt that the server aborts with a transient error.\<close>

definition transient_attempt :: "txenv \<Rightarrow> ('v, 'd) tx_body \<Rightarrow> 'd \<Rightarrow> nat \<Rightarrow> bool" where
  "transient_attempt env fn d b \<longleftrightarrow>
     (\<exists>f. begin_fault env b = Some f \<and> isTransient (fault_error f)) \<or>
     begin_fault env b = None \<and> (\<forall>v. \<exists>v' e w. fn b v d = (v', Some e, w) \<and> isTransient e)"

lemma inTx_loop_transient_step:
  assumes "transient_attempt env fn d a" and "0 < a \<longrightarrow> \<not> ctx_done env a"
  shows "\<exists>err1 v1 rs1. inTx_loop env fn (Suc m) a err v d rs = inTx_loop env fn m (Suc a) err1 v1 d rs1"
proof (cases "begin_fault env a")
  case None
  with assms obtain v' e w where "fn a v d = (v', Some e, w)" "isTransient e"
    unfolding transient_attempt_def by (metis option.distinct(1))
  with None assms(2) show ?thesis by (auto simp: Let_def)
next
  case (Some f)
  with assms show ?thesis by (auto simp: Let_def transient_attempt_def)
qed

lemma inTx_loop_skip:
  assumes "\<forall>b. a \<le> b \<and> b < a + k \<longrightarrow> transient_attempt env fn d b"
    and "\<forall>b. 0 < b \<longrightarrow> \<not> ctx_done env b" and "k \<le> n"
  shows "\<exists>err' v' rs'. inTx_loop env fn n a err v d rs = inTx_loop env fn (n - k) (a + k) err' v' d rs'"
  using assms
proof (induction k arbitrary: n a err v rs)
  case 0
  then show ?case by auto
next
  case (Suc k)
  then obtain m where n: "n = Suc m" by (cases n) auto
  from Suc.prems inTx_loop_transient_step [of env fn d a m err v rs] n
  obtain err1 v1 rs1 where 1:
    "inTx_loop env fn n a err v d rs = inTx_loop env fn m (Suc a) err1 v1 d rs1" by auto
  have "\<exists>err' v' rs'. inTx_loop env fn m (Suc a) err1 v1 d rs1 =
      inTx_loop env fn (m - k) (Suc a + k) err' v' d rs'"
    using Suc.prems n by (intro Suc.IH) auto
  with 1 n show ?case by simp
qed

text \<open>Up to four attempts may be aborted transiently: the fifth still commits.\<close>

lemma inTx_retry_success:
  assumes "k < maxTxAttempts" and "\<forall>b < k. transient_attempt env fn d b"
    and "\<forall>b. 0 < b \<longrightarrow> \<not> ctx_done env b" and "begin_fault env k = None"
    and "\<forall>v. fn k v d = (v', None, d')" and "commit_result env k = CommitOk"
  shows "\<exists>rs. inTx env fn v d = (v', None, d', rs)"
proof -
  from inTx_loop_skip [of 0 k env fn d maxTxAttempts None v "[]"] assms(1-3)
  obtain err1 v1 rs1 where "inTx env fn v d = inTx_loop env fn (maxTxAttempts - k) k err1 v1 d rs1"
    by (auto simp: inTx_def)
  moreover from assms(1) obtain m where "maxTxAttempts - k = Suc m"
    by (metis Suc_diff_Suc)
  ultimately show ?thesis using assms(3-6) by (auto simp: Let_def)
qed

text \<open>The loop waits at most four times, for at most 60 milliseconds in all.\<close>

definition waited :: "retries \<Rightarrow> nat" where
  "waited rs = sum_list (map snd rs)"

fun wait_budget :: "nat \<Rightarrow> nat \<Rightarrow> nat" where
  "wait_budget 0 a = 0"
| "wait_budget (Suc n) a = a * a * 2 + wait_budget n (Suc a)"

lemma inTx_loop_waits:
  assumes "inTx_loop env fn n a err v d rs = (v', r, d', rs')"
  shows "waited rs' \<le> waited rs + wait_budget n a \<and>
    length rs' \<le> length rs + (if a = 0 then n - 1 else n)"
  using assms
proof (induction n arbitrary: a err v rs)
  case 0
  then show ?case by auto
next
  case (Suc n)
  have noted: "waited (noted a err rs) \<le> waited rs + a * a * 2"
    "length (noted a err rs) \<le> length rs + (if a = 0 then 0 else 1)"
    by (simp_all add: noted_def waited_def)
  from Suc.prems show ?case
  proof (cases rule: inTx_loop_Suc_cases)
    case (again err1 v1)
    from Suc.IH [OF again] noted show ?thesis by (auto split: if_splits)
  qed (use noted in \<open>auto split: if_splits\<close>)
qed

lemma inTx_waits:
  assumes "inTx env fn v d = (v', r, d', rs)"
  shows "length rs \<le> 4 \<and> waited rs \<le> 60"
  using inTx_loop_waits [OF assms [unfolded inTx_def]]
  by (simp add: maxTxAttempts_def waited_def eval_nat_numeral)

section \<open>Lemmas: the fingerprint\<close>

text \<open>
  The hashed text determines the request: neither wallet text holds the separator.
\<close>

lemma fingerprint_text_inj:
  assumes "fingerprint_text f t n = fingerprint_text f' t' n'"
    and "CHR ''|'' \<notin> set f" "CHR ''|'' \<notin> set f'" "CHR ''|'' \<notin> set t" "CHR ''|'' \<notin> set t'"
  shows "f = f' \<and> t = t' \<and> n = n'"
proof -
  from assms(1) have "f @ CHR ''|'' # (t @ CHR ''|'' # show_int n) =
      f' @ CHR ''|'' # (t' @ CHR ''|'' # show_int n')"
    by (simp add: fingerprint_text_def)
  from append_sep_inj [OF this assms(2,3)]
  have f: "f = f'" and rest: "t @ CHR ''|'' # show_int n = t' @ CHR ''|'' # show_int n'" by simp_all
  from append_sep_inj [OF rest assms(4,5)] have "t = t'" "show_int n = show_int n'" by simp_all
  with f show ?thesis by (blast dest: show_int_inj)
qed

end
