(* ===== verification/Books.thy ===== *)
theory Books
  imports Schema
begin

text \<open>
  The abstract specification of the money: what one recorded transfer and one mint do to the
  database as a whole, and the bookkeeping invariant that ties balances, mints, transfers and
  the double-entry ledger together. The store theories show that the transactions of the
  program implement \<open>post\<close> and \<open>deposit\<close>; here these two are shown to keep the books.
\<close>

section \<open>Specification\<close>

text \<open>The ledger rows of a transfer: a debit and a credit when it succeeded, none otherwise.\<close>

definition ledger_entry :: "transfer_row \<Rightarrow> uuid \<Rightarrow> paise \<Rightarrow> ledger_row" where
  "ledger_entry t w delta =
     \<lparr>l_transfer_id = t_id t, l_wallet_id = w, l_delta_paise = delta, l_created_at = t_created_at t\<rparr>"

definition entries_of :: "transfer_row \<Rightarrow> ledger_row list" where
  "entries_of t =
     (if t_status t = ''succeeded''
      then [ledger_entry t (t_from_wallet_id t) (- t_amount_paise t),
            ledger_entry t (t_to_wallet_id t) (t_amount_paise t)]
      else [])"

text \<open>Adding to the balance of one wallet.\<close>

definition credit :: "uuid \<Rightarrow> paise \<Rightarrow> time \<Rightarrow> wallet_row list \<Rightarrow> wallet_row list" where
  "credit i delta now ws = update_where (\<lambda>w. w_id w = i) (add_balance delta now) ws"

definition move :: "transfer_row \<Rightarrow> wallet_row list \<Rightarrow> wallet_row list" where
  "move t ws =
     credit (t_to_wallet_id t) (t_amount_paise t) (t_created_at t)
       (credit (t_from_wallet_id t) (- t_amount_paise t) (t_created_at t) ws)"

text \<open>The whole effect of one transfer with a terminal status, and of one mint.\<close>

definition post :: "transfer_row \<Rightarrow> db \<Rightarrow> db" where
  "post t d =
     d\<lparr>wallets := (if t_status t = ''succeeded'' then move t (wallets d) else wallets d),
       transfers := transfers d @ [t],
       ledger_entries := ledger_entries d @ entries_of t\<rparr>"

definition deposit :: "mint_row \<Rightarrow> db \<Rightarrow> db" where
  "deposit m d =
     d\<lparr>wallets := credit (m_wallet_id m) (m_amount_paise m) (m_created_at m) (wallets d),
       mints := mints d @ [m]\<rparr>"

text \<open>The balance of a wallet, as a map: the abstract state of the bank.\<close>

definition balance_of :: "db \<Rightarrow> uuid \<Rightarrow> paise option" where
  "balance_of d i = map_option w_balance_paise (find (\<lambda>w. w_id w = i) (wallets d))"

text \<open>When a transfer row may be posted.\<close>

definition can_post :: "transfer_row \<Rightarrow> db \<Rightarrow> bool" where
  "can_post t d \<longleftrightarrow>
     transfer_check t = None \<and> transfer_unique d t = None \<and> transfer_fk d t = None \<and>
     t_status t \<noteq> ''pending'' \<and> t_completed_at t = Some (t_created_at t) \<and>
     (t_status t = ''succeeded'' \<longrightarrow>
        (\<exists>b c. balance_of d (t_from_wallet_id t) = Some b \<and> balance_of d (t_to_wallet_id t) = Some c \<and>
           t_amount_paise t \<le> b \<and> c + t_amount_paise t \<le> int64_max))"

definition can_deposit :: "mint_row \<Rightarrow> db \<Rightarrow> bool" where
  "can_deposit m d \<longleftrightarrow>
     mint_check m = None \<and> m_id m \<notin> set (map m_id (mints d)) \<and>
     m_idempotency_key m \<notin> set (map m_idempotency_key (mints d)) \<and>
     (\<exists>b. balance_of d (m_wallet_id m) = Some b \<and> b + m_amount_paise m \<le> int64_max)"

section \<open>The bookkeeping invariant\<close>

definition minted_to :: "db \<Rightarrow> uuid \<Rightarrow> paise" where
  "minted_to d i = col_sum m_amount_paise (filter (\<lambda>m. m_wallet_id m = i) (mints d))"

definition ledger_to :: "db \<Rightarrow> uuid \<Rightarrow> paise" where
  "ledger_to d i = col_sum l_delta_paise (filter (\<lambda>l. l_wallet_id l = i) (ledger_entries d))"

text \<open>
  Every balance is what was minted into the wallet plus its ledger; the ledger holds the two
  entries of each succeeded transfer and nothing else; no transfer is pending and each was
  completed at its transaction's timestamp.
\<close>

definition books_ok :: "db \<Rightarrow> bool" where
  "books_ok d \<longleftrightarrow>
     (\<forall>w \<in> set (wallets d). w_balance_paise w = minted_to d (w_id w) + ledger_to d (w_id w)) \<and>
     ledger_entries d = concat (map entries_of (transfers d)) \<and>
     (\<forall>t \<in> set (transfers d). t_status t \<noteq> ''pending'' \<and> t_completed_at t = Some (t_created_at t))"

definition store_ok :: "db \<Rightarrow> bool" where
  "store_ok d \<longleftrightarrow> schema_ok d \<and> books_ok d"

text \<open>The totals that \<open>GET /invariants\<close> reports.\<close>

definition total_balance :: "db \<Rightarrow> paise" where
  "total_balance d = col_sum w_balance_paise (wallets d)"

definition total_minted :: "db \<Rightarrow> paise" where
  "total_minted d = col_sum m_amount_paise (mints d)"

definition ledger_sum :: "db \<Rightarrow> paise" where
  "ledger_sum d = col_sum l_delta_paise (ledger_entries d)"

section \<open>Lemmas: balances\<close>

lemma balance_of_iff:
  assumes "schema_ok d"
  shows "balance_of d i = Some b \<longleftrightarrow> (\<exists>w \<in> set (wallets d). w_id w = i \<and> w_balance_paise w = b)"
proof
  assume "balance_of d i = Some b"
  then show "\<exists>w \<in> set (wallets d). w_id w = i \<and> w_balance_paise w = b"
    by (auto simp: balance_of_def dest: find_Some_in)
next
  assume "\<exists>w \<in> set (wallets d). w_id w = i \<and> w_balance_paise w = b"
  then obtain w where w: "w \<in> set (wallets d)" "w_id w = i" "w_balance_paise w = b" by blast
  from assms have "distinct (map w_id (wallets d))" by (simp add: schema_simps)
  from find_key_unique [OF this w(1)] w show "balance_of d i = Some b" by (simp add: balance_of_def)
qed

lemma balance_of_wallet:
  "schema_ok d \<Longrightarrow> w \<in> set (wallets d) \<Longrightarrow> balance_of d (w_id w) = Some (w_balance_paise w)"
  by (auto simp: balance_of_iff)

lemma balance_of_in_ids: "balance_of d i \<noteq> None \<longleftrightarrow> i \<in> set (wallet_ids d)"
  unfolding balance_of_def wallet_ids_def option.map_disc_iff find_None_not by (auto simp del: ids_fold)

lemma balance_of_bounds:
  "schema_ok d \<Longrightarrow> balance_of d i = Some b \<Longrightarrow> 0 \<le> b \<and> b \<le> int64_max"
  by (auto simp: balance_of_iff schema_simps)

lemma find_credit:
  "find (\<lambda>w. w_id w = j) (credit i delta now ws) =
     map_option (\<lambda>w. if w_id w = i then add_balance delta now w else w) (find (\<lambda>w. w_id w = j) ws)"
  by (simp add: credit_def find_update_where)

lemma ids_credit [simp]:
  "map w_id (credit i delta now ws) = map w_id ws"
  "map w_user_id (credit i delta now ws) = map w_user_id ws"
  by (simp_all add: credit_def)

lemma ids_move [simp]: "map w_id (move t ws) = map w_id ws" "map w_user_id (move t ws) = map w_user_id ws"
  by (simp_all add: move_def)

lemma set_credit:
  "set (credit i delta now ws) = (\<lambda>w. if w_id w = i then add_balance delta now w else w) ` set ws"
  by (simp add: credit_def set_update_where)

lemma find_wallet_id: "find (\<lambda>w. w_id w = i) ws = Some w \<Longrightarrow> w_id w = i"
  by (auto dest: find_Some_in)

text \<open>The abstract effect: \<open>post\<close> moves the amount between two entries of the balance map.\<close>

lemma balance_of_post:
  assumes "t_from_wallet_id t \<noteq> t_to_wallet_id t"
  shows "balance_of (post t d) i =
    (if t_status t = ''succeeded''
     then map_option (\<lambda>b. if i = t_from_wallet_id t then b - t_amount_paise t
                          else if i = t_to_wallet_id t then b + t_amount_paise t else b)
            (balance_of d i)
     else balance_of d i)"
  using assms
  by (auto simp: balance_of_def post_def move_def find_credit option.map_comp
      dest: find_wallet_id intro!: option.map_cong)

lemma balance_of_deposit:
  "balance_of (deposit m d) i =
     map_option (\<lambda>b. if i = m_wallet_id m then b + m_amount_paise m else b) (balance_of d i)"
  by (auto simp: balance_of_def deposit_def find_credit option.map_comp
      dest: find_wallet_id intro!: option.map_cong)

section \<open>Lemmas: posting keeps the schema\<close>

lemma credit_wallets_ok:
  assumes "wallets_ok d" and "\<And>b. balance_of d i = Some b \<Longrightarrow> 0 \<le> b + delta \<and> b + delta \<le> int64_max"
    and "schema_ok d"
  shows "wallets_ok (d\<lparr>wallets := credit i delta now (wallets d)\<rparr>)"
  using assms by (auto simp: wallets_ok_def set_credit dest: balance_of_wallet)

lemma credit_schema:
  assumes "schema_ok d" and "\<And>b. balance_of d i = Some b \<Longrightarrow> 0 \<le> b + delta \<and> b + delta \<le> int64_max"
  shows "schema_ok (d\<lparr>wallets := credit i delta now (wallets d)\<rparr>)"
proof -
  from assms have "wallets_ok (d\<lparr>wallets := credit i delta now (wallets d)\<rparr>)"
    by (intro credit_wallets_ok) (auto simp: schema_ok_def)
  with assms(1) show ?thesis by (simp add: schema_simps)
qed

lemma balance_of_credit:
  "balance_of (d\<lparr>wallets := credit i delta now (wallets d)\<rparr>) j =
     map_option (\<lambda>b. if j = i then b + delta else b) (balance_of d j)"
  by (auto simp: balance_of_def find_credit option.map_comp dest: find_wallet_id intro!: option.map_cong)

lemma move_schema:
  assumes "schema_ok d" and "can_post t d" and "t_status t = ''succeeded''"
  shows "schema_ok (d\<lparr>wallets := move t (wallets d)\<rparr>)"
proof -
  let ?d1 = "d\<lparr>wallets := credit (t_from_wallet_id t) (- t_amount_paise t) (t_created_at t) (wallets d)\<rparr>"
  from assms obtain b c where bc: "balance_of d (t_from_wallet_id t) = Some b"
    "balance_of d (t_to_wallet_id t) = Some c" "t_amount_paise t \<le> b" "c + t_amount_paise t \<le> int64_max"
    by (auto simp: can_post_def)
  from assms have amt: "0 < t_amount_paise t" "t_from_wallet_id t \<noteq> t_to_wallet_id t"
    by (auto simp: can_post_def transfer_check_def split: if_splits)
  from balance_of_bounds [OF assms(1) bc(1)] balance_of_bounds [OF assms(1) bc(2)]
  have "schema_ok ?d1" using assms(1) bc amt by (intro credit_schema) auto
  moreover have "balance_of ?d1 (t_to_wallet_id t) = Some c"
    using bc amt by (simp add: balance_of_credit)
  ultimately have "schema_ok (?d1\<lparr>wallets := credit (t_to_wallet_id t) (t_amount_paise t) (t_created_at t) (wallets ?d1)\<rparr>)"
    using bc amt balance_of_bounds [OF assms(1) bc(2)] by (intro credit_schema [of ?d1]) simp_all
  then show ?thesis by (simp add: move_def)
qed

lemma post_schema:
  assumes "schema_ok d" and "can_post t d"
  shows "schema_ok (post t d)"
proof -
  let ?ws = "if t_status t = ''succeeded'' then move t (wallets d) else wallets d"
  from assms have "schema_ok (d\<lparr>wallets := ?ws\<rparr>)" by (auto intro: move_schema)
  moreover have "wallet_ids (d\<lparr>wallets := ?ws\<rparr>) = wallet_ids d" by simp
  moreover have "\<forall>l \<in> set (entries_of t). ledger_check l = None \<and> l_transfer_id l = t_id t \<and>
      l_wallet_id l \<in> set (wallet_ids d)"
    using assms by (auto simp: entries_of_def ledger_entry_def ledger_check_def can_post_def schema_simps
        transfer_check_def split: if_splits)
  ultimately show ?thesis
    using assms by (auto simp: post_def schema_simps can_post_def)
qed

lemma deposit_schema:
  assumes "schema_ok d" and "can_deposit m d"
  shows "schema_ok (deposit m d)"
proof -
  from assms have "schema_ok (d\<lparr>wallets := credit (m_wallet_id m) (m_amount_paise m) (m_created_at m) (wallets d)\<rparr>)"
    by (intro credit_schema) (auto simp: can_deposit_def mint_check_None dest: balance_of_bounds)
  moreover have "m_wallet_id m \<in> set (wallet_ids d)"
    using assms balance_of_in_ids by (auto simp: can_deposit_def)
  ultimately show ?thesis
    using assms by (auto simp: deposit_def schema_simps can_deposit_def)
qed

section \<open>Lemmas: posting keeps the books\<close>

lemma books_balances:
  assumes "schema_ok d"
  shows "(\<forall>w \<in> set (wallets d). w_balance_paise w = f (w_id w)) \<longleftrightarrow>
    (\<forall>i b. balance_of d i = Some b \<longrightarrow> b = f i)"
  using assms by (auto simp: balance_of_iff)

lemma books_ok_alt:
  "schema_ok d \<Longrightarrow> books_ok d \<longleftrightarrow>
     (\<forall>i b. balance_of d i = Some b \<longrightarrow> b = minted_to d i + ledger_to d i) \<and>
     ledger_entries d = concat (map entries_of (transfers d)) \<and>
     (\<forall>t \<in> set (transfers d). t_status t \<noteq> ''pending'' \<and> t_completed_at t = Some (t_created_at t))"
  unfolding books_ok_def
  using books_balances [of d "\<lambda>i. minted_to d i + ledger_to d i"] by simp

lemma store_okI: "schema_ok d \<Longrightarrow> books_ok d \<Longrightarrow> store_ok d"
  by (simp add: store_ok_def)

lemma store_okD [dest]: "store_ok d \<Longrightarrow> schema_ok d" "store_ok d \<Longrightarrow> books_ok d"
  by (simp_all add: store_ok_def)

lemma ledger_to_post:
  assumes "t_from_wallet_id t \<noteq> t_to_wallet_id t"
  shows "ledger_to (post t d) i = ledger_to d i +
    (if t_status t = ''succeeded''
     then (if i = t_from_wallet_id t then - t_amount_paise t
           else if i = t_to_wallet_id t then t_amount_paise t else 0)
     else 0)"
  using assms by (auto simp: ledger_to_def post_def entries_of_def ledger_entry_def)

lemma minted_to_post [simp]: "minted_to (post t d) i = minted_to d i"
  by (simp add: minted_to_def post_def)

lemma minted_to_deposit:
  "minted_to (deposit m d) i = minted_to d i + (if i = m_wallet_id m then m_amount_paise m else 0)"
  by (simp add: minted_to_def deposit_def)

lemma ledger_to_deposit [simp]: "ledger_to (deposit m d) i = ledger_to d i"
  by (simp add: ledger_to_def deposit_def)

lemma can_post_distinct: "can_post t d \<Longrightarrow> t_from_wallet_id t \<noteq> t_to_wallet_id t"
  by (auto simp: can_post_def transfer_check_def split: if_splits)

lemma post_store_ok [keeps_intros]:
  assumes "store_ok d" and "can_post t d"
  shows "store_ok (post t d)"
proof -
  have s: "schema_ok d" and b: "books_ok d" using assms(1) by auto
  have s': "schema_ok (post t d)" using s assms(2) by (rule post_schema)
  have "b = minted_to (post t d) i + ledger_to (post t d) i"
    if "balance_of (post t d) i = Some b" for i b
    using that b s can_post_distinct [OF assms(2)]
    by (auto simp: balance_of_post ledger_to_post books_ok_alt split: if_splits)
  moreover have "ledger_entries (post t d) = concat (map entries_of (transfers (post t d)))"
    using b by (simp add: post_def books_ok_def)
  moreover have "\<forall>u \<in> set (transfers (post t d)). t_status u \<noteq> ''pending'' \<and> t_completed_at u = Some (t_created_at u)"
    using b assms(2) by (simp add: post_def books_ok_def can_post_def)
  ultimately show ?thesis using s' by (simp add: store_ok_def books_ok_alt)
qed

lemma deposit_store_ok [keeps_intros]:
  assumes "store_ok d" and "can_deposit m d"
  shows "store_ok (deposit m d)"
proof -
  have s: "schema_ok d" and b: "books_ok d" using assms(1) by auto
  have s': "schema_ok (deposit m d)" using s assms(2) by (rule deposit_schema)
  have "b = minted_to (deposit m d) i + ledger_to (deposit m d) i"
    if "balance_of (deposit m d) i = Some b" for i b
    using that b s by (auto simp: balance_of_deposit minted_to_deposit books_ok_alt)
  moreover have "transfers (deposit m d) = transfers d" "ledger_entries (deposit m d) = ledger_entries d"
    by (simp_all add: deposit_def)
  ultimately show ?thesis using s' b by (simp add: store_ok_def books_ok_alt) (simp add: books_ok_def)
qed

lemma insert_user_store_ok [keeps_intros]:
  assumes "store_ok d" and "insert_user u d = Inr d'"
  shows "store_ok d'"
  using assms insert_user_schema [OF assms(2)]
  by (auto simp: store_ok_def insert_user_Inr books_ok_def minted_to_def ledger_to_def)

text \<open>A wallet that has just been created has no mint and no ledger entry.\<close>

lemma no_history:
  assumes "schema_ok d" and "i \<notin> set (wallet_ids d)"
  shows "minted_to d i = 0" "ledger_to d i = 0"
proof -
  have "filter (\<lambda>m. m_wallet_id m = i) (mints d) = []"
    using assms by (auto simp: filter_empty_conv schema_simps)
  then show "minted_to d i = 0" by (simp add: minted_to_def)
  have "filter (\<lambda>l. l_wallet_id l = i) (ledger_entries d) = []"
    using assms by (auto simp: filter_empty_conv schema_simps)
  then show "ledger_to d i = 0" by (simp add: ledger_to_def)
qed

lemma insert_wallet_store_ok [keeps_intros]:
  assumes "store_ok d" and "insert_wallet w d = Inr d'" and "w_balance_paise w = 0"
  shows "store_ok d'"
proof -
  have "schema_ok d'" using assms by (auto intro: insert_wallet_schema simp: int64_max_def)
  moreover from assms(2) have d': "d' = d\<lparr>wallets := wallets d @ [w]\<rparr>" "w_id w \<notin> set (wallet_ids d)"
    by (auto simp: insert_wallet_Inr)
  moreover have "minted_to d' i = minted_to d i" "ledger_to d' i = ledger_to d i" for i
    by (simp_all add: d' minted_to_def ledger_to_def)
  ultimately show ?thesis
    using assms no_history [of d "w_id w"] by (auto simp: store_ok_def books_ok_def)
qed

lemma store_ok_empty: "store_ok empty_db"
  using schema_ok_empty by (simp add: store_ok_def books_ok_def empty_db_def)

section \<open>Lemmas: the totals\<close>

text \<open>A column sum split by a foreign key.\<close>

lemma col_sum_split:
  assumes "distinct ks" and "\<forall>r \<in> set rows. k r \<in> set ks"
  shows "(\<Sum>i\<leftarrow>ks. col_sum c (filter (\<lambda>r. k r = i) rows)) = col_sum c rows"
  using assms(2)
proof (induction rows)
  case Nil
  then show ?case by simp
next
  case (Cons r rows)
  have "(\<Sum>i\<leftarrow>ks. if k r = i then c r else 0) = c r"
    using assms(1) Cons.prems by (simp add: sum_list_distinct_conv_sum_set)
  moreover have "(\<Sum>i\<leftarrow>ks. col_sum c (filter (\<lambda>x. k x = i) (r # rows))) =
      (\<Sum>i\<leftarrow>ks. (if k r = i then c r else 0) + col_sum c (filter (\<lambda>x. k x = i) rows))"
    by (intro arg_cong [where f = sum_list] map_cong) auto
  ultimately show ?case using Cons by (simp add: sum_list_addf)
qed

lemma ledger_sum_zero:
  assumes "books_ok d"
  shows "ledger_sum d = 0"
proof -
  have "col_sum l_delta_paise (concat (map entries_of ts)) = 0" for ts
    by (induction ts) (simp_all add: entries_of_def ledger_entry_def)
  with assms show ?thesis by (simp add: ledger_sum_def books_ok_def)
qed

lemma total_balance_eq:
  assumes "store_ok d"
  shows "total_balance d = total_minted d"
proof -
  have s: "schema_ok d" and b: "books_ok d" using assms by auto
  have "total_balance d = (\<Sum>i\<leftarrow>wallet_ids d. minted_to d i + ledger_to d i)"
    unfolding total_balance_def col_sum_def wallet_ids_def map_map comp_def
    using b by (intro arg_cong [where f = sum_list] map_cong) (auto simp: books_ok_def)
  also have "\<dots> = total_minted d + ledger_sum d"
    unfolding sum_list_addf total_minted_def ledger_sum_def minted_to_def ledger_to_def
    using s by (subst (1 2) col_sum_split) (auto simp: schema_simps)
  finally show ?thesis using ledger_sum_zero [OF b] by simp
qed

lemma total_balance_post:
  assumes "store_ok d" and "can_post t d"
  shows "total_balance (post t d) = total_balance d"
proof -
  have "total_minted (post t d) = total_minted d" by (simp add: total_minted_def post_def)
  then show ?thesis using assms by (simp add: total_balance_eq post_store_ok)
qed

lemma total_balance_deposit:
  assumes "store_ok d" and "can_deposit m d"
  shows "total_balance (deposit m d) = total_balance d + m_amount_paise m"
proof -
  have "total_minted (deposit m d) = total_minted d + m_amount_paise m"
    by (simp add: total_minted_def deposit_def)
  then show ?thesis using assms by (simp add: total_balance_eq deposit_store_ok)
qed

end
