(* ===== verification/Wallet_Store.thy ===== *)
theory Wallet_Store
  imports Store Books
begin

text \<open>
  Package \<open>store\<close>, file \<open>wallet.go\<close>: users, get-or-create of wallets, reads, and \<open>Mint\<close>.
  A single statement on the pool commits by itself: it runs, or fails before it ran, or its
  answer is lost with the effect on or off the server (\<open>query_outcome\<close>).
\<close>

section \<open>Single statements on the pool\<close>

datatype query_outcome = QueryOk | QueryFault fault | QueryLost bool

record callenv =
  q_outcome :: query_outcome
  q_uuid :: uuid
  q_now :: time

definition autocommit :: "callenv \<Rightarrow> (pg_error + ('a \<times> db)) \<Rightarrow> db \<Rightarrow> (error + 'a) \<times> db" where
  "autocommit c r d =
     (case q_outcome c of
        QueryFault f \<Rightarrow> (Inl (fault_error f), d)
      | QueryOk \<Rightarrow> (case r of Inl e \<Rightarrow> (Inl (Pg e), d) | Inr (x, d') \<Rightarrow> (Inr x, d'))
      | QueryLost applied \<Rightarrow>
          (Inl ErrConn, case r of Inl e \<Rightarrow> d | Inr (x, d') \<Rightarrow> if applied then d' else d))"

text \<open>\<open>pool.QueryRow(...).Scan\<close> of a \<open>SELECT\<close>: no row is \<open>pgx.ErrNoRows\<close>.\<close>

definition query_row :: "callenv \<Rightarrow> (pg_error + 'r option) \<Rightarrow> error + 'r" where
  "query_row c r =
     (case q_outcome c of
        QueryFault f \<Rightarrow> Inl (fault_error f)
      | QueryLost _ \<Rightarrow> Inl ErrConn
      | QueryOk \<Rightarrow>
          (case r of Inl e \<Rightarrow> Inl (Pg e) | Inr None \<Rightarrow> Inl ErrNoRows | Inr (Some x) \<Rightarrow> Inr x))"

definition calm :: "time \<Rightarrow> uuid \<Rightarrow> callenv" where
  "calm now u = \<lparr>q_outcome = QueryOk, q_uuid = u, q_now = now\<rparr>"

section \<open>Users\<close>

record User =
  User_ID :: string

definition TokenHash :: "pg \<Rightarrow> string \<Rightarrow> bytes" where
  "TokenHash pg token = sha256 pg token"

text \<open>
  \<open>INSERT INTO users (token_hash) VALUES ($1) ON CONFLICT (token_hash) DO UPDATE SET
  token_hash = EXCLUDED.token_hash RETURNING id\<close>.
\<close>

definition upsert_user_sql :: "bytes \<Rightarrow> uuid \<Rightarrow> time \<Rightarrow> db \<Rightarrow> pg_error + (uuid \<times> db)" where
  "upsert_user_sql h new now d =
     (case find (\<lambda>u. u_token_hash u = h) (users d) of
        Some u \<Rightarrow>
          Inr (u_id u, d\<lparr>users := update_where (\<lambda>r. u_token_hash r = h) (u_token_hash_update (\<lambda>_. h)) (users d)\<rparr>)
      | None \<Rightarrow>
          (case insert_user \<lparr>u_id = new, u_token_hash = h, u_created_at = now\<rparr> d of
             Inl e \<Rightarrow> Inl e
           | Inr d' \<Rightarrow> Inr (new, d')))"

definition UpsertUser :: "pg \<Rightarrow> callenv \<Rightarrow> string \<Rightarrow> db \<Rightarrow> (error + User) \<times> db" where
  "UpsertUser pg c token d =
     (case autocommit c (upsert_user_sql (TokenHash pg token) (q_uuid c) (q_now c) d) d of
        (Inl e, d') \<Rightarrow> (Inl e, d')
      | (Inr i, d') \<Rightarrow> (Inr \<lparr>User_ID = i\<rparr>, d'))"

section \<open>Wallets\<close>

definition wallet_of :: "wallet_row \<Rightarrow> Wallet" where
  "wallet_of w =
     \<lparr>ID = w_id w, UserID = w_user_id w, BalancePaise = w_balance_paise w, CreatedAt = w_created_at w\<rparr>"

text \<open>
  \<open>INSERT INTO wallets (user_id) VALUES ($1) ON CONFLICT (user_id) DO UPDATE SET user_id =
  EXCLUDED.user_id RETURNING ..., (xmax = 0) AS inserted\<close>.
\<close>

definition get_or_create_sql ::
  "pg \<Rightarrow> string \<Rightarrow> uuid \<Rightarrow> time \<Rightarrow> db \<Rightarrow> pg_error + ((Wallet \<times> bool) \<times> db)" where
  "get_or_create_sql pg userID new now d =
     (case bind_uuid pg userID of Inl e \<Rightarrow> Inl e | Inr uid \<Rightarrow>
      case find (\<lambda>w. w_user_id w = uid) (wallets d) of
        Some w \<Rightarrow>
          Inr ((wallet_of w, False),
               d\<lparr>wallets := update_where (\<lambda>r. w_user_id r = uid) (w_user_id_update (\<lambda>_. uid)) (wallets d)\<rparr>)
      | None \<Rightarrow>
          (let w = \<lparr>w_id = new, w_user_id = uid, w_balance_paise = 0, w_created_at = now, w_updated_at = now\<rparr>
           in case insert_wallet w d of
                Inl e \<Rightarrow> Inl e
              | Inr d' \<Rightarrow> Inr ((wallet_of w, True), d')))"

definition GetOrCreateWallet ::
  "pg \<Rightarrow> callenv \<Rightarrow> string \<Rightarrow> db \<Rightarrow> (error + (Wallet \<times> bool)) \<times> db" where
  "GetOrCreateWallet pg c userID d =
     autocommit c (get_or_create_sql pg userID (q_uuid c) (q_now c) d) d"

text \<open>\<open>SELECT id, user_id, balance_paise, created_at FROM wallets WHERE id = $1\<close>.\<close>

definition select_wallet :: "pg \<Rightarrow> string \<Rightarrow> db \<Rightarrow> pg_error + wallet_row option" where
  "select_wallet pg i d =
     (case bind_uuid pg i of Inl e \<Rightarrow> Inl e | Inr u \<Rightarrow> Inr (find (\<lambda>w. w_id w = u) (wallets d)))"

definition GetWallet :: "pg \<Rightarrow> callenv \<Rightarrow> string \<Rightarrow> db \<Rightarrow> error + Wallet" where
  "GetWallet pg c i d =
     (case query_row c (select_wallet pg i d) of
        Inl e \<Rightarrow>
          (if errors_Is e ErrNoRows then Inl ErrWalletNotFound
           else if sqlstate e = ''22P02'' then Inl ErrWalletNotFound
           else Inl e)
      | Inr w \<Rightarrow> Inr (wallet_of w))"

section \<open>Mint\<close>

text \<open>\<open>INSERT INTO mints (idempotency_key, wallet_id, amount_paise) VALUES ($1, $2, $3)\<close>.\<close>

definition mint_insert_sql ::
  "pg \<Rightarrow> string \<Rightarrow> string \<Rightarrow> paise \<Rightarrow> uuid \<Rightarrow> time \<Rightarrow> db \<Rightarrow> pg_error + db" where
  "mint_insert_sql pg idemKey walletID amountPaise new now d =
     (case bind_text pg idemKey of Inl e \<Rightarrow> Inl e | Inr k \<Rightarrow>
      case bind_uuid pg walletID of Inl e \<Rightarrow> Inl e | Inr u \<Rightarrow>
      insert_mint \<lparr>m_id = new, m_idempotency_key = k, m_wallet_id = u,
                   m_amount_paise = amountPaise, m_created_at = now\<rparr> d)"

text \<open>\<open>UPDATE wallets SET balance_paise = balance_paise + $1, updated_at = now() WHERE id = $2\<close>.\<close>

definition credit_sql :: "pg \<Rightarrow> paise \<Rightarrow> string \<Rightarrow> time \<Rightarrow> db \<Rightarrow> pg_error + (nat \<times> db)" where
  "credit_sql pg amountPaise walletID now d =
     (case bind_uuid pg walletID of Inl e \<Rightarrow> Inl e | Inr u \<Rightarrow>
      update_balance (\<lambda>w. w_id w = u) amountPaise now d)"

type_synonym mint_vars = "Wallet \<times> bool"

text \<open>The last statement of the transaction: read the wallet back.\<close>

definition mint_read ::
  "pg \<Rightarrow> txenv \<Rightarrow> nat \<Rightarrow> string \<Rightarrow> mint_vars \<Rightarrow> db \<Rightarrow> mint_vars \<times> error option \<times> db" where
  "mint_read pg env a walletID v d =
     (case stmt env a 4 (select_wallet pg walletID d) of
        Inl e \<Rightarrow> (v, Some e, d)
      | Inr None \<Rightarrow> (v, Some ErrNoRows, d)
      | Inr (Some w) \<Rightarrow> ((wallet_of w, snd v), None, d))"

text \<open>
  The transaction of \<open>Mint\<close>: statement 0 opens the savepoint, 1 inserts the mint, 2 releases
  the savepoint, 3 credits the wallet, 4 reads it. Rolling the savepoint back undoes
  nothing that the failed insert had not already left undone.
\<close>

definition mint_body :: "pg \<Rightarrow> txenv \<Rightarrow> string \<Rightarrow> string \<Rightarrow> paise \<Rightarrow> (mint_vars, db) tx_body" where
  "mint_body pg env walletID idemKey amountPaise a v d =
     (let v0 = (fst v, False); now = tx_now env a in
      case stmt env a 0 (Inr ()) of Inl e \<Rightarrow> (v0, Some e, d) | Inr _ \<Rightarrow>
      case stmt env a 1 (mint_insert_sql pg idemKey walletID amountPaise (new_uuid env a) now d) of
        Inr d1 \<Rightarrow>
          (let v1 = (fst v, True) in
           case stmt env a 2 (Inr ()) of Inl e \<Rightarrow> (v1, Some e, d1) | Inr _ \<Rightarrow>
           case stmt env a 3 (credit_sql pg amountPaise walletID now d1) of
             Inl e \<Rightarrow> (v1, Some e, d1)
           | Inr (_, d2) \<Rightarrow> mint_read pg env a walletID v1 d2)
      | Inl e \<Rightarrow>
          (if sqlstate e = sqlstateUniqueViolation then mint_read pg env a walletID v0 d
           else if sqlstate e = sqlstateForeignKeyViolation \<or> sqlstate e = ''22P02''
             then (v0, Some ErrWalletNotFound, d)
           else (v0, Some e, d)))"

definition zero_Wallet :: Wallet where
  "zero_Wallet = \<lparr>ID = '''', UserID = '''', BalancePaise = 0, CreatedAt = 0\<rparr>"

definition Mint ::
  "pg \<Rightarrow> txenv \<Rightarrow> string \<Rightarrow> string \<Rightarrow> paise \<Rightarrow> db \<Rightarrow> (error + (Wallet \<times> bool)) \<times> db \<times> retries" where
  "Mint pg env walletID idemKey amountPaise d =
     (case inTx env (mint_body pg env walletID idemKey amountPaise) (zero_Wallet, False) d of
        (v, err, d', rs) \<Rightarrow>
          (case err of
             Some e \<Rightarrow> (if errors_Is e ErrNoRows then Inl ErrWalletNotFound else Inl e, d', rs)
           | None \<Rightarrow> (Inr v, d', rs)))"

section \<open>Lemmas: parameters and reads\<close>

lemma bind_uuid_Inr: "bind_uuid pg s = Inr u \<longleftrightarrow> text_ok pg s \<and> uuid_in pg s = Some u"
  by (auto simp: bind_uuid_def split: option.split)

lemma bind_uuid_canonical [simp]: "canonical pg s \<Longrightarrow> bind_uuid pg s = Inr s"
  by (simp add: canonical_def bind_uuid_Inr)

lemma bind_uuid_Inl: "bind_uuid pg s = Inl e \<Longrightarrow> e = PgError ''22021'' '''' \<or> e = PgError ''22P02'' ''''"
  by (auto simp: bind_uuid_def split: option.splits if_splits)

lemma bind_text_Inr: "bind_text pg s = Inr k \<longleftrightarrow> text_ok pg s \<and> k = s"
  by (auto simp: bind_text_def)

lemma autocommit_db:
  "autocommit c r d = (x, d') \<Longrightarrow> d' = d \<or> (\<exists>y. r = Inr (y, d'))"
  by (auto simp: autocommit_def split: query_outcome.splits sum.splits if_splits)

lemma autocommit_ok:
  "autocommit c r d = (Inr x, d') \<Longrightarrow> r = Inr (x, d')"
  by (auto simp: autocommit_def split: query_outcome.splits sum.splits if_splits)

lemma autocommit_calm [simp]: "autocommit (calm now u) r d = (case r of Inl e \<Rightarrow> (Inl (Pg e), d) | Inr (x, d') \<Rightarrow> (Inr x, d'))"
  by (simp add: autocommit_def calm_def)

lemma calm_sel [simp]: "q_uuid (calm now u) = u" "q_now (calm now u) = now" "q_outcome (calm now u) = QueryOk"
  by (simp_all add: calm_def)

section \<open>Lemmas: get-or-create changes a row only by creating it\<close>

lemma upsert_user_same [simp]:
  "update_where (\<lambda>r. u_token_hash r = h) (u_token_hash_update (\<lambda>_. h)) us = us"
  by (induction us) auto

lemma get_or_create_same [simp]:
  "update_where (\<lambda>r. w_user_id r = i) (w_user_id_update (\<lambda>_. i)) ws = ws"
  by (induction ws) auto

lemma UpsertUser_store_ok [keeps_intros]:
  assumes "store_ok d" and "UpsertUser pg c token d = (r, d')"
  shows "store_ok d'"
proof -
  from assms(2) obtain x where "autocommit c (upsert_user_sql (TokenHash pg token) (q_uuid c) (q_now c) d) d = (x, d')"
    by (auto simp: UpsertUser_def split: prod.splits sum.splits)
  from autocommit_db [OF this] assms(1) show ?thesis
    by (auto simp: upsert_user_sql_def split: option.splits sum.splits intro: insert_user_store_ok)
qed

lemma GetOrCreateWallet_store_ok [keeps_intros]:
  assumes "store_ok d" and "GetOrCreateWallet pg c userID d = (r, d')"
  shows "store_ok d'"
  using autocommit_db [OF assms(2) [unfolded GetOrCreateWallet_def]] assms(1)
  by (auto simp: get_or_create_sql_def Let_def split: option.splits sum.splits
      intro: insert_wallet_store_ok)

section \<open>Lemmas: one run of the mint transaction\<close>

text \<open>The row that a mint request writes.\<close>

definition mint_row_of :: "txenv \<Rightarrow> nat \<Rightarrow> string \<Rightarrow> uuid \<Rightarrow> paise \<Rightarrow> mint_row" where
  "mint_row_of env a idemKey u amountPaise =
     \<lparr>m_id = new_uuid env a, m_idempotency_key = idemKey, m_wallet_id = u,
      m_amount_paise = amountPaise, m_created_at = tx_now env a\<rparr>"

lemma mint_insert_sql_Inr:
  "mint_insert_sql pg k i n new now d = Inr d' \<longleftrightarrow> text_ok pg k \<and>
     (\<exists>u. bind_uuid pg i = Inr u \<and>
       insert_mint \<lparr>m_id = new, m_idempotency_key = k, m_wallet_id = u, m_amount_paise = n, m_created_at = now\<rparr> d = Inr d')"
  by (auto simp: mint_insert_sql_def bind_text_def split: sum.split)

lemma mint_read_None:
  "mint_read pg env a i v d = (v', None, d') \<longleftrightarrow>
     d' = d \<and> stmt_fault env a 4 = None \<and>
     (\<exists>w. select_wallet pg i d = Inr (Some w) \<and> v' = (wallet_of w, snd v))"
  by (auto simp: mint_read_def stmt_def split: sum.splits option.splits)

lemma credit_sql_deposit:
  assumes "schema_ok d" and "insert_mint m d = Inr d1" and "bind_uuid pg i = Inr (m_wallet_id m)"
    and "credit_sql pg (m_amount_paise m) i (m_created_at m) d1 = Inr (n, d2)"
  shows "can_deposit m d \<and> d2 = deposit m d"
proof -
  from assms(2) have m: "mint_check m = None" "m_id m \<notin> set (map m_id (mints d))"
    "m_idempotency_key m \<notin> set (map m_idempotency_key (mints d))"
    "m_wallet_id m \<in> set (wallet_ids d)" "d1 = d\<lparr>mints := mints d @ [m]\<rparr>"
    by (simp_all add: insert_mint_Inr)
  from assms(3,4) m(5) have c: "\<forall>w \<in> set (wallets d). w_id w = m_wallet_id m \<longrightarrow>
      in_int64 (w_balance_paise w + m_amount_paise m)"
    "d2 = d1\<lparr>wallets := credit (m_wallet_id m) (m_amount_paise m) (m_created_at m) (wallets d)\<rparr>"
    by (auto simp: credit_sql_def update_balance_Inr credit_def)
  from m(4) obtain w where w: "w \<in> set (wallets d)" "w_id w = m_wallet_id m"
    by (auto simp: wallet_ids_iff)
  with c(1) have "w_balance_paise w + m_amount_paise m \<le> int64_max" by (simp add: in_int64_def)
  with m w balance_of_wallet [OF assms(1) w(1)] have "can_deposit m d" by (simp add: can_deposit_def)
  moreover have "d2 = deposit m d" using c(2) m(5) by (cases d) (simp add: deposit_def)
  ultimately show ?thesis ..
qed

text \<open>
  A run that reaches the commit has either left the database alone (the key was used) or
  performed exactly the abstract deposit.
\<close>

lemma mint_body_commit:
  assumes "mint_body pg env i k n a v d = (v', None, d')" and "schema_ok d"
  shows "(snd v' = False \<and> d' = d) \<or>
    (snd v' = True \<and> (\<exists>u. bind_uuid pg i = Inr u \<and> can_deposit (mint_row_of env a k u n) d \<and>
       d' = deposit (mint_row_of env a k u n) d))"
proof (cases "stmt env a 1 (mint_insert_sql pg k i n (new_uuid env a) (tx_now env a) d)")
  case (Inl e)
  with assms(1) show ?thesis
    by (auto simp: mint_body_def Let_def mint_read_None split: sum.splits if_splits)
next
  case (Inr d1)
  then obtain u where u: "bind_uuid pg i = Inr u" "insert_mint (mint_row_of env a k u n) d = Inr d1"
    by (auto simp: stmt_Inr_iff mint_insert_sql_Inr mint_row_of_def)
  from assms(1) Inr obtain c d2 where s: "credit_sql pg n i (tx_now env a) d1 = Inr (c, d2)"
    and r: "mint_read pg env a i (fst v, True) d2 = (v', None, d')"
    unfolding mint_body_def Let_def Inr
    by (simp split: sum.splits prod.splits) (auto simp: stmt_Inr_iff)
  from credit_sql_deposit [OF assms(2) u(2), of pg i c d2] u s
  have "can_deposit (mint_row_of env a k u n) d \<and> d2 = deposit (mint_row_of env a k u n) d"
    by (simp add: mint_row_of_def)
  with r u show ?thesis by (auto simp: mint_read_None)
qed

lemma Mint_inTx:
  assumes "Mint pg env i k n d = (r, d', rs)"
  obtains v err where "inTx env (mint_body pg env i k n) (zero_Wallet, False) d = (v, err, d', rs)"
    "(r = Inr v \<and> err = None) \<or> (\<exists>e e'. r = Inl e \<and> err = Some e')"
  using assms by (auto simp: Mint_def split: prod.splits option.splits)

lemma Mint_db:
  assumes "Mint pg env i k n d = (r, d', rs)" and "schema_ok d"
  shows "d' = d \<or> (\<exists>a u. bind_uuid pg i = Inr u \<and> can_deposit (mint_row_of env a k u n) d \<and>
    d' = deposit (mint_row_of env a k u n) d)"
proof -
  from assms(1) obtain v err where "inTx env (mint_body pg env i k n) (zero_Wallet, False) d = (v, err, d', rs)"
    by (rule Mint_inTx)
  then show ?thesis
  proof (cases rule: inTx_cases)
    case failed
    then show ?thesis by simp
  next
    case (committed a v0)
    from mint_body_commit [OF committed(3) assms(2)] show ?thesis by blast
  qed
qed

lemma Mint_store_ok [keeps_intros]:
  assumes "store_ok d" and "Mint pg env i k n d = (r, d', rs)"
  shows "store_ok d'"
  using Mint_db [OF assms(2)] assms(1) by (auto intro: deposit_store_ok)

lemma mint_body_wallet:
  assumes "mint_body pg env i k n a v d = (v', None, d')"
  shows "\<exists>w. select_wallet pg i d' = Inr (Some w) \<and> fst v' = wallet_of w"
  using assms
  by (auto simp: mint_body_def Let_def mint_read_None split: sum.splits prod.splits if_splits)

section \<open>Lemmas: get-or-create\<close>

definition owned_by :: "db \<Rightarrow> uuid \<Rightarrow> wallet_row option" where
  "owned_by d uid = find (\<lambda>w. w_user_id w = uid) (wallets d)"

text \<open>A call answers with the row that the user owns afterwards; it creates one only when there was none.\<close>

lemma get_or_create_sql_cases:
  assumes "get_or_create_sql pg userID new now d = Inr ((w, created), d')"
  obtains uid r where "bind_uuid pg userID = Inr uid" "owned_by d' uid = Some r" "w = wallet_of r"
    "if created then owned_by d uid = None else d' = d \<and> owned_by d uid = Some r"
proof -
  obtain uid where uid: "bind_uuid pg userID = Inr uid"
    using assms by (cases "bind_uuid pg userID") (auto simp: get_or_create_sql_def)
  show ?thesis
  proof (cases "owned_by d uid")
    case (Some r)
    with assms uid have "w = wallet_of r" "\<not> created" "d' = d"
      by (auto simp: get_or_create_sql_def owned_by_def)
    with that [OF uid, of r] Some show ?thesis by simp
  next
    case None
    let ?r = "\<lparr>w_id = new, w_user_id = uid, w_balance_paise = 0, w_created_at = now, w_updated_at = now\<rparr>"
    from assms uid None have "insert_wallet ?r d = Inr d'" "w = wallet_of ?r" created
      by (auto simp: get_or_create_sql_def owned_by_def Let_def split: sum.splits)
    moreover then have "owned_by d' uid = Some ?r"
      using None by (auto simp: insert_wallet_Inr owned_by_def find_append)
    ultimately show ?thesis using that [OF uid, of ?r] None by simp
  qed
qed

lemma GetOrCreateWallet_owned:
  assumes "bind_uuid pg userID = Inr uid" and "owned_by d uid = Some r"
  shows "snd (GetOrCreateWallet pg c userID d) = d"
    and "fst (GetOrCreateWallet pg c userID d) = Inr x \<Longrightarrow> x = (wallet_of r, False)"
  using assms
  by (auto simp: GetOrCreateWallet_def autocommit_def get_or_create_sql_def owned_by_def
      split: query_outcome.splits)

end
