(* ===== verification/Transfer_Store.thy ===== *)
theory Transfer_Store
  imports Wallet_Store
begin

text \<open>
  Package \<open>store\<close>, file \<open>transfer.go\<close>: the transfer transaction with its idempotent replay,
  the reads of transfers and the audit \<open>CheckInvariants\<close>. The statements of the transaction are
  numbered: 0 claims the key, 1 and 2 lock the two wallets, 3 closes the batch, 4 records a
  decline, 5 to 8 are the debit, the credit, the ledger rows and the final status, 9 closes
  that batch.
\<close>

section \<open>Requests\<close>

record TransferRequest =
  RequesterUserID :: string
  rq_FromWalletID :: string
  rq_ToWalletID :: string
  rq_AmountPaise :: paise
  rq_IdempotencyKey :: string

definition request_fingerprint :: "pg \<Rightarrow> TransferRequest \<Rightarrow> bytes" where
  "request_fingerprint pg req =
     Fingerprint pg (rq_FromWalletID req) (rq_ToWalletID req) (rq_AmountPaise req)"

section \<open>Step 1: claim the idempotency key\<close>

definition claim_key_sql ::
  "pg \<Rightarrow> TransferRequest \<Rightarrow> bytes \<Rightarrow> uuid \<Rightarrow> time \<Rightarrow> db \<Rightarrow> pg_error + db" where
  "claim_key_sql pg req fp new now d =
     (case bind_text pg (rq_IdempotencyKey req) of Inl e \<Rightarrow> Inl e | Inr k \<Rightarrow>
      case bind_uuid pg (RequesterUserID req) of Inl e \<Rightarrow> Inl e | Inr uid \<Rightarrow>
      case bind_uuid pg (rq_FromWalletID req) of Inl e \<Rightarrow> Inl e | Inr f \<Rightarrow>
      case bind_uuid pg (rq_ToWalletID req) of Inl e \<Rightarrow> Inl e | Inr t \<Rightarrow>
      insert_transfer
        \<lparr>t_id = new, t_idempotency_key = k, t_requester_user_id = uid, t_from_wallet_id = f,
         t_to_wallet_id = t, t_amount_paise = rq_AmountPaise req, t_status = ''pending'',
         t_decline_reason = None, t_request_fingerprint = fp, t_created_at = now,
         t_completed_at = None\<rparr> d)"

section \<open>Step 2: lock both wallets\<close>

text \<open>The two ids in ascending order of their request texts.\<close>

definition lock_order :: "string \<Rightarrow> string \<Rightarrow> string \<times> string" where
  "lock_order from to = (if from > to then (to, from) else (from, to))"

text \<open>
  The two \<open>SELECT id, balance_paise ... FOR NO KEY UPDATE\<close> of the batch; the result is the Go
  map \<open>balances\<close>, keyed by the id that the server returns.
\<close>

definition lock_wallets ::
  "pg \<Rightarrow> txenv \<Rightarrow> nat \<Rightarrow> string \<Rightarrow> string \<Rightarrow> db \<Rightarrow> error + (string \<rightharpoonup> paise)" where
  "lock_wallets pg env a lo hi d =
     (case stmt env a 1 (select_wallet pg lo d) of
        Inl e \<Rightarrow> Inl e
      | Inr None \<Rightarrow> Inl ErrWalletNotFound
      | Inr (Some w1) \<Rightarrow>
          (case stmt env a 2 (select_wallet pg hi d) of
             Inl e \<Rightarrow> Inl e
           | Inr None \<Rightarrow> Inl ErrWalletNotFound
           | Inr (Some w2) \<Rightarrow>
               (case stmt env a 3 (Inr ()) of
                  Inl e \<Rightarrow> Inl e
                | Inr _ \<Rightarrow> Inr ((Map.empty)(w_id w1 \<mapsto> w_balance_paise w1, w_id w2 \<mapsto> w_balance_paise w2)))))"

text \<open>A Go map read: a missing key is the zero value.\<close>

definition map_read :: "(string \<rightharpoonup> paise) \<Rightarrow> string \<Rightarrow> paise" where
  "map_read m k = (case m k of Some b \<Rightarrow> b | None \<Rightarrow> 0)"

section \<open>Step 4: apply\<close>

definition debit_sql :: "pg \<Rightarrow> paise \<Rightarrow> string \<Rightarrow> time \<Rightarrow> db \<Rightarrow> pg_error + (nat \<times> db)" where
  "debit_sql pg amountPaise walletID now d =
     (case bind_uuid pg walletID of Inl e \<Rightarrow> Inl e | Inr u \<Rightarrow>
      update_balance (\<lambda>w. w_id w = u \<and> amountPaise \<le> w_balance_paise w) (- amountPaise) now d)"

definition ledger_sql :: "pg \<Rightarrow> uuid \<Rightarrow> TransferRequest \<Rightarrow> time \<Rightarrow> db \<Rightarrow> pg_error + db" where
  "ledger_sql pg tid req now d =
     (case bind_uuid pg (rq_FromWalletID req) of Inl e \<Rightarrow> Inl e | Inr f \<Rightarrow>
      case bind_uuid pg (rq_ToWalletID req) of Inl e \<Rightarrow> Inl e | Inr t \<Rightarrow>
      insert_ledger
        [\<lparr>l_transfer_id = tid, l_wallet_id = f, l_delta_paise = wrap64 (- rq_AmountPaise req), l_created_at = now\<rparr>,
         \<lparr>l_transfer_id = tid, l_wallet_id = t, l_delta_paise = rq_AmountPaise req, l_created_at = now\<rparr>] d)"

text \<open>The second batch, with the checks on the affected rows.\<close>

definition apply_transfer ::
  "pg \<Rightarrow> txenv \<Rightarrow> nat \<Rightarrow> uuid \<Rightarrow> TransferRequest \<Rightarrow> db \<Rightarrow> error + db" where
  "apply_transfer pg env a tid req d =
     (let now = tx_now env a in
      case stmt env a 5 (debit_sql pg (rq_AmountPaise req) (rq_FromWalletID req) now d) of
        Inl e \<Rightarrow> Inl e
      | Inr (n1, d1) \<Rightarrow>
          if n1 \<noteq> 1 then Inl errDebitLost else
          (case stmt env a 6 (credit_sql pg (rq_AmountPaise req) (rq_ToWalletID req) now d1) of
             Inl e \<Rightarrow> Inl e
           | Inr (n2, d2) \<Rightarrow>
               if n2 \<noteq> 1 then Inl ErrWalletNotFound else
               (case stmt env a 7 (ledger_sql pg tid req now d2) of
                  Inl e \<Rightarrow> Inl e
                | Inr d3 \<Rightarrow>
                    (case stmt env a 8 (update_transfer tid (succeed_row now) d3) of
                       Inl e \<Rightarrow> Inl e
                     | Inr (_, d4) \<Rightarrow>
                         (case stmt env a 9 (Inr ()) of Inl e \<Rightarrow> Inl e | Inr _ \<Rightarrow> Inr d4)))))"

section \<open>The transaction\<close>

record tx_vars =
  result :: TransferResult
  replayed :: bool

definition zero_Transfer :: Transfer where
  "zero_Transfer =
     \<lparr>TID = '''', Status = '''', DeclineReason = None, FromWalletID = '''', ToWalletID = '''',
      AmountPaise = 0, IdempotencyKey = '''', TCreatedAt = 0, CompletedAt = None\<rparr>"

definition fresh_vars :: tx_vars where
  "fresh_vars = \<lparr>result = \<lparr>transfer = zero_Transfer, Replay = False\<rparr>, replayed = False\<rparr>"

text \<open>The Go value \<open>t\<close> after the insert returned its id and timestamp.\<close>

definition started :: "TransferRequest \<Rightarrow> uuid \<Rightarrow> time \<Rightarrow> Transfer" where
  "started req tid now =
     zero_Transfer\<lparr>TID := tid, TCreatedAt := now, FromWalletID := rq_FromWalletID req,
       ToWalletID := rq_ToWalletID req, AmountPaise := rq_AmountPaise req,
       IdempotencyKey := rq_IdempotencyKey req\<rparr>"

definition transfer_body :: "pg \<Rightarrow> txenv \<Rightarrow> TransferRequest \<Rightarrow> (tx_vars, db) tx_body" where
  "transfer_body pg env req a v d =
     (let now = tx_now env a; tid = new_uuid env a in
      case stmt env a 0 (claim_key_sql pg req (request_fingerprint pg req) tid now d) of
        Inl e \<Rightarrow>
          (if sqlstate e = sqlstateUniqueViolation \<and> constraintName e = ''transfers_idem_key''
           then (fresh_vars\<lparr>replayed := True\<rparr>, Some errReplay, d)
           else if sqlstate e = sqlstateForeignKeyViolation \<or> sqlstate e = ''22P02''
             then (fresh_vars, Some ErrWalletNotFound, d)
           else (fresh_vars, Some e, d))
      | Inr d1 \<Rightarrow>
          (case lock_order (rq_FromWalletID req) (rq_ToWalletID req) of (lo, hi) \<Rightarrow>
           case lock_wallets pg env a lo hi d1 of
             Inl e \<Rightarrow> (fresh_vars, Some e, d1)
           | Inr balances \<Rightarrow>
               if map_read balances (rq_FromWalletID req) < rq_AmountPaise req then
                 (case stmt env a 4 (update_transfer tid (decline_row ReasonInsufficientFunds now) d1) of
                    Inl e \<Rightarrow> (fresh_vars, Some e, d1)
                  | Inr (n, d2) \<Rightarrow>
                      if n = 0 then (fresh_vars, Some ErrNoRows, d2)
                      else (fresh_vars\<lparr>result := \<lparr>transfer =
                              (started req tid now)\<lparr>Status := StatusDeclined,
                                 DeclineReason := Some ReasonInsufficientFunds,
                                 CompletedAt := Some now\<rparr>, Replay = False\<rparr>\<rparr>, None, d2))
               else
                 (case apply_transfer pg env a tid req d1 of
                    Inl e \<Rightarrow> (fresh_vars, Some e, d1)
                  | Inr d2 \<Rightarrow>
                      (let t = started req tid now in
                       (fresh_vars\<lparr>result := \<lparr>transfer =
                          t\<lparr>Status := StatusSucceeded, CompletedAt := Some (TCreatedAt t)\<rparr>,
                          Replay = False\<rparr>\<rparr>, None, d2)))))"

section \<open>Reads of transfers\<close>

definition transfer_of :: "transfer_row \<Rightarrow> Transfer" where
  "transfer_of t =
     \<lparr>TID = t_id t, Status = t_status t, DeclineReason = t_decline_reason t,
      FromWalletID = t_from_wallet_id t, ToWalletID = t_to_wallet_id t,
      AmountPaise = t_amount_paise t, IdempotencyKey = t_idempotency_key t,
      TCreatedAt = t_created_at t, CompletedAt = t_completed_at t\<rparr>"

definition select_by_key :: "pg \<Rightarrow> string \<Rightarrow> string \<Rightarrow> db \<Rightarrow> pg_error + transfer_row option" where
  "select_by_key pg userID key d =
     (case bind_uuid pg userID of Inl e \<Rightarrow> Inl e | Inr uid \<Rightarrow>
      case bind_text pg key of Inl e \<Rightarrow> Inl e | Inr k \<Rightarrow>
      Inr (find (\<lambda>t. idem_key t = (uid, k)) (transfers d)))"

definition transferByKey :: "pg \<Rightarrow> callenv \<Rightarrow> string \<Rightarrow> string \<Rightarrow> db \<Rightarrow> error + (Transfer \<times> bytes)" where
  "transferByKey pg c userID key d =
     (case query_row c (select_by_key pg userID key d) of
        Inl e \<Rightarrow> (if errors_Is e ErrNoRows then Inl ErrTransferNotFound else Inl e)
      | Inr t \<Rightarrow> Inr (transfer_of t, t_request_fingerprint t))"

definition GetTransfer :: "pg \<Rightarrow> callenv \<Rightarrow> string \<Rightarrow> db \<Rightarrow> error + Transfer" where
  "GetTransfer pg c i d =
     (case query_row c (case bind_uuid pg i of Inl e \<Rightarrow> Inl e | Inr u \<Rightarrow>
             Inr (find (\<lambda>t. t_id t = u) (transfers d))) of
        Inl e \<Rightarrow>
          (if errors_Is e ErrNoRows \<or> sqlstate e = ''22P02'' then Inl ErrTransferNotFound else Inl e)
      | Inr t \<Rightarrow> Inr (transfer_of t))"

section \<open>Transfer\<close>

text \<open>\<open>c\<close> is the environment of the read on the replay path.\<close>

definition store_Transfer ::
  "pg \<Rightarrow> txenv \<Rightarrow> callenv \<Rightarrow> TransferRequest \<Rightarrow> db \<Rightarrow> (error + TransferResult) \<times> db \<times> retries" where
  "store_Transfer pg env c req d =
     (if rq_FromWalletID req = rq_ToWalletID req then (Inl ErrSameWallet, d, []) else
      case inTx env (transfer_body pg env req) fresh_vars d of
        (v, err, d', rs) \<Rightarrow>
          if replayed v \<or> (case err of Some e \<Rightarrow> errors_Is e errReplay | None \<Rightarrow> False) then
            (case transferByKey pg c (RequesterUserID req) (rq_IdempotencyKey req) d' of
               Inl e \<Rightarrow> (Inl e, d', rs)
             | Inr (t, fp) \<Rightarrow>
                 if fp \<noteq> request_fingerprint pg req then (Inl ErrIdempotencyConflict, d', rs)
                 else (Inr \<lparr>transfer = t, Replay = True\<rparr>, d', rs))
          else (case err of Some e \<Rightarrow> (Inl e, d', rs) | None \<Rightarrow> (Inr (result v), d', rs)))"

section \<open>The audit\<close>

record Invariants =
  WalletCount :: int
  TotalBalancePaise :: int
  TotalMintedPaise :: int
  LedgerSumPaise :: int
  NegativeBalances :: int
  TransfersSucceeded :: int
  TransfersDeclined :: int
  PendingTransfers :: int
  Conservation :: bool
  NoOverdraft :: bool
  AllHold :: bool

definition count_status :: "string \<Rightarrow> db \<Rightarrow> int" where
  "count_status st d = int (rows_affected (\<lambda>t. t_status t = st) (transfers d))"

text \<open>
  The sums are \<open>numeric\<close> on the server; scanning one that does not fit the \<open>int64\<close> field
  fails.
\<close>

definition CheckInvariants :: "callenv \<Rightarrow> db \<Rightarrow> error + Invariants" where
  "CheckInvariants c d =
     (case query_row c (Inr (Some (total_balance d, total_minted d, ledger_sum d))) of
        Inl e \<Rightarrow> Inl e
      | Inr (bal, minted, led) \<Rightarrow>
          if \<not> (in_int64 bal \<and> in_int64 minted \<and> in_int64 led) then Inl ErrScan
          else
            (let neg = int (rows_affected (\<lambda>w. w_balance_paise w < 0) (wallets d));
                 pend = count_status ''pending'' d;
                 cons = (bal = minted \<and> led = 0);
                 nood = (neg = 0)
             in Inr \<lparr>WalletCount = int (length (wallets d)), TotalBalancePaise = bal,
                  TotalMintedPaise = minted, LedgerSumPaise = led, NegativeBalances = neg,
                  TransfersSucceeded = count_status ''succeeded'' d,
                  TransfersDeclined = count_status ''declined'' d, PendingTransfers = pend,
                  Conservation = cons, NoOverdraft = nood,
                  AllHold = (cons \<and> nood \<and> pend = 0)\<rparr>))"

section \<open>Lemmas: the claimed row\<close>

text \<open>The row that step 1 inserts, with the parameters already converted.\<close>

definition claim_row :: "pg \<Rightarrow> txenv \<Rightarrow> nat \<Rightarrow> TransferRequest \<Rightarrow> uuid \<Rightarrow> uuid \<Rightarrow> uuid \<Rightarrow> transfer_row" where
  "claim_row pg env a req uid f t =
     \<lparr>t_id = new_uuid env a, t_idempotency_key = rq_IdempotencyKey req, t_requester_user_id = uid,
      t_from_wallet_id = f, t_to_wallet_id = t, t_amount_paise = rq_AmountPaise req,
      t_status = ''pending'', t_decline_reason = None,
      t_request_fingerprint = request_fingerprint pg req, t_created_at = tx_now env a,
      t_completed_at = None\<rparr>"

text \<open>The conversion of the three ids and the key of a request.\<close>

definition bound_request :: "pg \<Rightarrow> TransferRequest \<Rightarrow> uuid \<Rightarrow> uuid \<Rightarrow> uuid \<Rightarrow> bool" where
  "bound_request pg req uid f t \<longleftrightarrow>
     text_ok pg (rq_IdempotencyKey req) \<and> bind_uuid pg (RequesterUserID req) = Inr uid \<and>
     bind_uuid pg (rq_FromWalletID req) = Inr f \<and> bind_uuid pg (rq_ToWalletID req) = Inr t"

lemma claim_key_sql_eq:
  "bound_request pg req uid f t \<Longrightarrow>
   claim_key_sql pg req (request_fingerprint pg req) (new_uuid env a) (tx_now env a) d =
     insert_transfer (claim_row pg env a req uid f t) d"
  by (simp add: claim_key_sql_def bound_request_def claim_row_def bind_text_def)

lemma claim_key_sql_bound:
  "(\<exists>uid f t. bound_request pg req uid f t) \<or>
   (\<exists>e. claim_key_sql pg req fp new now d = Inl e \<and> e \<in> {PgError ''22021'' '''', PgError ''22P02'' ''''})"
  by (cases "text_ok pg (rq_IdempotencyKey req)"; cases "bind_uuid pg (RequesterUserID req)";
      cases "bind_uuid pg (rq_FromWalletID req)"; cases "bind_uuid pg (rq_ToWalletID req)")
    (auto simp: claim_key_sql_def bound_request_def bind_text_def dest: bind_uuid_Inl)

lemma claim_key_sql_Inr:
  "claim_key_sql pg req (request_fingerprint pg req) (new_uuid env a) (tx_now env a) d = Inr d' \<longleftrightarrow>
     (\<exists>uid f t. bound_request pg req uid f t \<and> insert_transfer (claim_row pg env a req uid f t) d = Inr d')"
proof (cases "\<exists>uid f t. bound_request pg req uid f t")
  case True
  then obtain uid f t where b: "bound_request pg req uid f t" by blast
  then have "bound_request pg req u' f' t' \<longleftrightarrow> u' = uid \<and> f' = f \<and> t' = t" for u' f' t'
    by (auto simp: bound_request_def)
  with claim_key_sql_eq [OF b] show ?thesis by auto
next
  case False
  with claim_key_sql_bound [of pg req "request_fingerprint pg req" "new_uuid env a" "tx_now env a" d]
  show ?thesis by auto
qed

lemma claim_row_sel [simp]:
  "t_id (claim_row pg env a req uid f t) = new_uuid env a"
  "idem_key (claim_row pg env a req uid f t) = (uid, rq_IdempotencyKey req)"
  "t_from_wallet_id (claim_row pg env a req uid f t) = f"
  "t_to_wallet_id (claim_row pg env a req uid f t) = t"
  "t_amount_paise (claim_row pg env a req uid f t) = rq_AmountPaise req"
  "t_created_at (claim_row pg env a req uid f t) = tx_now env a"
  "t_request_fingerprint (claim_row pg env a req uid f t) = request_fingerprint pg req"
  "t_requester_user_id (claim_row pg env a req uid f t) = uid"
  "t_idempotency_key (claim_row pg env a req uid f t) = rq_IdempotencyKey req"
  "t_status (claim_row pg env a req uid f t) = ''pending''"
  by (simp_all add: claim_row_def idem_key_def)

lemma terminal_row_sel [simp]:
  "t_id (succeed_row now r) = t_id r" "t_id (decline_row rs now r) = t_id r"
  "idem_key (succeed_row now r) = idem_key r" "idem_key (decline_row rs now r) = idem_key r"
  "t_from_wallet_id (succeed_row now r) = t_from_wallet_id r"
  "t_from_wallet_id (decline_row rs now r) = t_from_wallet_id r"
  "t_to_wallet_id (succeed_row now r) = t_to_wallet_id r"
  "t_to_wallet_id (decline_row rs now r) = t_to_wallet_id r"
  "t_amount_paise (succeed_row now r) = t_amount_paise r"
  "t_amount_paise (decline_row rs now r) = t_amount_paise r"
  "t_created_at (succeed_row now r) = t_created_at r" "t_created_at (decline_row rs now r) = t_created_at r"
  "t_requester_user_id (succeed_row now r) = t_requester_user_id r"
  "t_requester_user_id (decline_row rs now r) = t_requester_user_id r"
  "t_request_fingerprint (succeed_row now r) = t_request_fingerprint r"
  "t_request_fingerprint (decline_row rs now r) = t_request_fingerprint r"
  "t_status (succeed_row now r) = ''succeeded''" "t_status (decline_row rs now r) = ''declined''"
  "t_completed_at (succeed_row now r) = Some now" "t_completed_at (decline_row rs now r) = Some now"
  by (simp_all add: succeed_row_def decline_row_def idem_key_def)

text \<open>Finishing the row that was just inserted touches no other row.\<close>

lemma finish_new_row:
  assumes "i \<notin> set (map t_id ts)" and "t_id r = i"
  shows "update_where (\<lambda>t. t_id t = i) f (ts @ [r]) = ts @ [f r]"
proof -
  have "update_where (\<lambda>t. t_id t = i) f ts = ts" using assms(1) by (intro update_where_none) auto
  with assms(2) show ?thesis by simp
qed

section \<open>Lemmas: the apply step\<close>

text \<open>The conditional debit that hits a row is the abstract one.\<close>

lemma debit_is_credit:
  assumes "schema_ok d" and "w \<in> set (wallets d)" and "w_id w = f" and "n \<le> w_balance_paise w"
  shows "update_where (\<lambda>w. w_id w = f \<and> n \<le> w_balance_paise w) g (wallets d) =
    update_where (\<lambda>w. w_id w = f) g (wallets d)"
proof -
  have "w_id x = f \<Longrightarrow> x \<in> set (wallets d) \<Longrightarrow> n \<le> w_balance_paise x" for x
    using balance_of_wallet [OF assms(1), of x] balance_of_wallet [OF assms(1,2)] assms(3,4) by auto
  then show ?thesis by (auto simp: update_where_def)
qed

lemma debit_sql_Inr:
  assumes "debit_sql pg n i now d = Inr (k, d')" and "k = 1" and "bind_uuid pg i = Inr f" and "schema_ok d"
  shows "(\<exists>b. balance_of d f = Some b \<and> n \<le> b) \<and> d' = d\<lparr>wallets := credit f (- n) now (wallets d)\<rparr>"
proof -
  from assms(1-3) have u: "1 = rows_affected (\<lambda>w. w_id w = f \<and> n \<le> w_balance_paise w) (wallets d)"
    "d' = d\<lparr>wallets := update_where (\<lambda>w. w_id w = f \<and> n \<le> w_balance_paise w) (add_balance (- n) now) (wallets d)\<rparr>"
    by (simp_all add: debit_sql_def update_balance_Inr)
  from u(1) have "rows_affected (\<lambda>w. w_id w = f \<and> n \<le> w_balance_paise w) (wallets d) \<noteq> 0" by simp
  then obtain w where w: "w \<in> set (wallets d)" "w_id w = f" "n \<le> w_balance_paise w"
    by (auto simp: rows_affected_0)
  from u(2) debit_is_credit [OF assms(4) w] balance_of_wallet [OF assms(4) w(1)] w
  show ?thesis by (auto simp: credit_def)
qed

lemma credit_sql_Inr:
  assumes "credit_sql pg n i now d = Inr (k, d')" and "bind_uuid pg i = Inr f"
  shows "d' = d\<lparr>wallets := credit f n now (wallets d)\<rparr> \<and>
    (\<forall>b. balance_of d f = Some b \<longrightarrow> b + n \<le> int64_max)"
  using assms
  by (auto simp: credit_sql_def update_balance_Inr credit_def balance_of_def in_int64_def
      dest!: find_Some_in)

lemma apply_transfer_Inr:
  assumes "apply_transfer pg env a tid req d = Inr d'"
  obtains d1 d2 d3 n4 where
    "debit_sql pg (rq_AmountPaise req) (rq_FromWalletID req) (tx_now env a) d = Inr (1, d1)"
    "credit_sql pg (rq_AmountPaise req) (rq_ToWalletID req) (tx_now env a) d1 = Inr (1, d2)"
    "ledger_sql pg tid req (tx_now env a) d2 = Inr d3"
    "update_transfer tid (succeed_row (tx_now env a)) d3 = Inr (n4, d')"
  using assms
  by (simp add: apply_transfer_def Let_def split: sum.splits prod.splits if_splits)
    (auto simp: stmt_Inr_iff)

text \<open>Applying to the database with the claimed row is posting the succeeded row.\<close>

lemma apply_transfer_post:
  assumes "schema_ok d" and "bound_request pg req uid f t"
    and "insert_transfer (claim_row pg env a req uid f t) d = Inr d0"
    and "apply_transfer pg env a (new_uuid env a) req d0 = Inr d'"
  defines "r \<equiv> succeed_row (tx_now env a) (claim_row pg env a req uid f t)"
  shows "can_post r d \<and> d' = post r d"
proof -
  let ?n = "rq_AmountPaise req" and ?now = "tx_now env a" and ?c = "claim_row pg env a req uid f t"
  have b: "bind_uuid pg (rq_FromWalletID req) = Inr f" "bind_uuid pg (rq_ToWalletID req) = Inr t"
    using assms(2) by (simp_all add: bound_request_def)
  from assms(3) have c: "transfer_check ?c = None" "transfer_unique d ?c = None" "transfer_fk d ?c = None"
    "d0 = d\<lparr>transfers := transfers d @ [?c]\<rparr>" by (simp_all add: insert_transfer_Inr)
  have n: "0 < ?n" "f \<noteq> t" using c(1) by (auto simp: transfer_check_def split: if_splits)
  have s0: "schema_ok d0" using assms(1,3) by (blast intro: insert_transfer_schema)
  from assms(4) obtain d1 d2 d3 n4 where
    1: "debit_sql pg ?n (rq_FromWalletID req) ?now d0 = Inr (1, d1)" and
    2: "credit_sql pg ?n (rq_ToWalletID req) ?now d1 = Inr (1, d2)" and
    3: "ledger_sql pg (new_uuid env a) req ?now d2 = Inr d3" and
    4: "update_transfer (new_uuid env a) (succeed_row ?now) d3 = Inr (n4, d')"
    by (rule apply_transfer_Inr)
  have bal0: "balance_of d0 i = balance_of d i" for i by (simp add: c(4) balance_of_def)
  from debit_sql_Inr [OF 1 refl b(1) s0] bal0 obtain bf where
    bf: "balance_of d f = Some bf" "?n \<le> bf" and d1: "d1 = d0\<lparr>wallets := credit f (- ?n) ?now (wallets d0)\<rparr>"
    by auto
  from credit_sql_Inr [OF 2 b(2)] have d2: "d2 = d1\<lparr>wallets := credit t ?n ?now (wallets d1)\<rparr>"
    and bt: "\<And>b. balance_of d1 t = Some b \<Longrightarrow> b + ?n \<le> int64_max" by auto
  have "balance_of d t \<noteq> None" using c(3) by (simp only: balance_of_in_ids transfer_fk_None claim_row_sel)
  then obtain bt0 where bt0: "balance_of d t = Some bt0" by blast
  then have "balance_of d1 t = Some bt0" using n bal0 by (simp add: d1 balance_of_credit)
  then have room: "bt0 + ?n \<le> int64_max" by (rule bt)
  have wrap: "wrap64 (- ?n) = - ?n"
    using n bf balance_of_bounds [OF assms(1) bf(1)]
    by (intro wrap64_id) (simp add: in_int64_def int64_min_def int64_max_def)
  have ents: "[\<lparr>l_transfer_id = new_uuid env a, l_wallet_id = f, l_delta_paise = - ?n, l_created_at = ?now\<rparr>,
      \<lparr>l_transfer_id = new_uuid env a, l_wallet_id = t, l_delta_paise = ?n, l_created_at = ?now\<rparr>] = entries_of r"
    by (simp add: entries_of_def ledger_entry_def r_def)
  from 3 have d3: "d3 = d2\<lparr>ledger_entries := ledger_entries d2 @ entries_of r\<rparr>"
    by (simp add: ledger_sql_def b insert_ledger_Inr wrap ents)
  have new: "new_uuid env a \<notin> set (map t_id (transfers d))" using c(2) by (simp add: transfer_unique_None)
  from 4 have "d' = d3\<lparr>transfers := transfers d @ [r]\<rparr>"
    using finish_new_row [OF new, of ?c] by (simp add: update_transfer_Inr d3 d2 d1 c(4) r_def)
  then have "d' = post r d"
    by (cases d) (simp add: d3 d2 d1 c(4) post_def move_def r_def)
  moreover have "transfer_check r = None"
    using c(1) by (auto simp: transfer_check_def r_def succeed_row_def claim_row_def decline_reason_ok_def split: if_splits)
  then have "can_post r d"
    using c(2,3) bf bt0 room by (simp add: can_post_def r_def transfer_unique_None transfer_fk_None)
  ultimately show ?thesis by simp
qed

lemma decline_post:
  assumes "insert_transfer (claim_row pg env a req uid f t) d = Inr d0"
    and "update_transfer (new_uuid env a) (decline_row reason (tx_now env a)) d0 = Inr (n, d')"
  defines "r \<equiv> decline_row reason (tx_now env a) (claim_row pg env a req uid f t)"
  shows "can_post r d \<and> d' = post r d"
proof -
  let ?c = "claim_row pg env a req uid f t"
  from assms(1) have c: "transfer_check ?c = None" "transfer_unique d ?c = None" "transfer_fk d ?c = None"
    "d0 = d\<lparr>transfers := transfers d @ [?c]\<rparr>" by (simp_all add: insert_transfer_Inr)
  have new: "new_uuid env a \<notin> set (map t_id (transfers d))" using c(2) by (simp add: transfer_unique_None)
  from assms(2) have "d' = d0\<lparr>transfers := transfers d @ [r]\<rparr>"
    using finish_new_row [OF new, of ?c] by (simp add: update_transfer_Inr c(4) r_def)
  then have "d' = post r d" by (cases d) (simp add: c(4) post_def r_def entries_of_def)
  moreover have "transfer_check r = None"
    using c(1) by (auto simp: transfer_check_def r_def decline_row_def claim_row_def decline_reason_ok_def split: if_splits)
  then have "can_post r d"
    using c(2,3) by (simp add: can_post_def r_def transfer_unique_None transfer_fk_None)
  ultimately show ?thesis by simp
qed

section \<open>Lemmas: one run of the transfer transaction\<close>

text \<open>The terminal row of a request: what an attempt that commits has written.\<close>

definition terminal_row ::
  "pg \<Rightarrow> txenv \<Rightarrow> nat \<Rightarrow> TransferRequest \<Rightarrow> uuid \<Rightarrow> uuid \<Rightarrow> uuid \<Rightarrow> bool \<Rightarrow> transfer_row" where
  "terminal_row pg env a req uid f t okay =
     (if okay then succeed_row (tx_now env a) (claim_row pg env a req uid f t)
      else decline_row ReasonInsufficientFunds (tx_now env a) (claim_row pg env a req uid f t))"

text \<open>The document answered for a row: the row, with the ids as the request spelled them.\<close>

definition answered :: "TransferRequest \<Rightarrow> transfer_row \<Rightarrow> Transfer" where
  "answered req r = (transfer_of r)\<lparr>FromWalletID := rq_FromWalletID req, ToWalletID := rq_ToWalletID req\<rparr>"

lemma terminal_row_sel2 [simp]:
  "t_id (terminal_row pg env a req uid f t k) = new_uuid env a"
  "idem_key (terminal_row pg env a req uid f t k) = (uid, rq_IdempotencyKey req)"
  "t_from_wallet_id (terminal_row pg env a req uid f t k) = f"
  "t_to_wallet_id (terminal_row pg env a req uid f t k) = t"
  "t_amount_paise (terminal_row pg env a req uid f t k) = rq_AmountPaise req"
  "t_request_fingerprint (terminal_row pg env a req uid f t k) = request_fingerprint pg req"
  "t_status (terminal_row pg env a req uid f t k) = (if k then ''succeeded'' else ''declined'')"
  by (simp_all add: terminal_row_def)

lemma answered_terminal:
  "answered req (terminal_row pg env a req uid f t k) =
    (if k then (started req (new_uuid env a) (tx_now env a))\<lparr>Status := StatusSucceeded,
            CompletedAt := Some (tx_now env a)\<rparr>
     else (started req (new_uuid env a) (tx_now env a))\<lparr>Status := StatusDeclined,
            DeclineReason := Some ReasonInsufficientFunds, CompletedAt := Some (tx_now env a)\<rparr>)"
  by (simp add: answered_def terminal_row_def transfer_of_def succeed_row_def decline_row_def claim_row_def
      started_def zero_Transfer_def StatusSucceeded_def StatusDeclined_def)

lemma transfer_body_claimed:
  assumes "transfer_body pg env req a v d = (v', None, d')"
  obtains uid f t d0 lo hi balances where "bound_request pg req uid f t"
    "insert_transfer (claim_row pg env a req uid f t) d = Inr d0"
    "stmt env a 0 (claim_key_sql pg req (request_fingerprint pg req) (new_uuid env a) (tx_now env a) d) = Inr d0"
    "lock_order (rq_FromWalletID req) (rq_ToWalletID req) = (lo, hi)"
    "lock_wallets pg env a lo hi d0 = Inr balances"
proof -
  let ?c = "claim_key_sql pg req (request_fingerprint pg req) (new_uuid env a) (tx_now env a) d"
  obtain d0 where d0: "stmt env a 0 ?c = Inr d0"
    using assms by (cases "stmt env a 0 ?c") (auto simp: transfer_body_def Let_def split: if_splits)
  then obtain uid f t where 1: "bound_request pg req uid f t"
    "insert_transfer (claim_row pg env a req uid f t) d = Inr d0"
    by (auto simp: stmt_Inr_iff claim_key_sql_Inr)
  obtain lo hi where 2: "lock_order (rq_FromWalletID req) (rq_ToWalletID req) = (lo, hi)" by fastforce
  obtain balances where "lock_wallets pg env a lo hi d0 = Inr balances"
    using assms d0 2 by (cases "lock_wallets pg env a lo hi d0") (auto simp: transfer_body_def Let_def)
  with that [OF 1 d0 2] show ?thesis .
qed

text \<open>
  An attempt that reaches the commit has performed exactly the abstract \<open>post\<close> of one
  terminal row, and answers with that row.
\<close>

lemma transfer_body_commit:
  assumes "transfer_body pg env req a v d = (v', None, d')" and "schema_ok d"
  obtains uid f t okay where "bound_request pg req uid f t"
    "can_post (terminal_row pg env a req uid f t okay) d"
    "d' = post (terminal_row pg env a req uid f t okay) d"
    "v' = fresh_vars\<lparr>result := \<lparr>transfer = answered req (terminal_row pg env a req uid f t okay), Replay = False\<rparr>\<rparr>"
proof -
  let ?now = "tx_now env a" and ?tid = "new_uuid env a"
  from assms(1) obtain uid f t d0 lo hi balances where 1: "bound_request pg req uid f t"
    "insert_transfer (claim_row pg env a req uid f t) d = Inr d0"
    and claim: "stmt env a 0 (claim_key_sql pg req (request_fingerprint pg req) ?tid ?now d) = Inr d0"
    and 2: "lock_order (rq_FromWalletID req) (rq_ToWalletID req) = (lo, hi)"
    "lock_wallets pg env a lo hi d0 = Inr balances" by (rule transfer_body_claimed)
  note unf = assms(1) [unfolded transfer_body_def Let_def claim sum.case 2(1) prod.case 2(2)]
  show ?thesis
  proof (cases "map_read balances (rq_FromWalletID req) < rq_AmountPaise req")
    case True
    with unf obtain n where u: "update_transfer ?tid (decline_row ReasonInsufficientFunds ?now) d0 = Inr (n, d')"
      and v: "v' = fresh_vars\<lparr>result := \<lparr>transfer = answered req (terminal_row pg env a req uid f t False), Replay = False\<rparr>\<rparr>"
      by (simp add: answered_terminal split: sum.splits prod.splits if_splits) (auto simp: stmt_Inr_iff)
    from decline_post [OF 1(2) u] have "can_post (terminal_row pg env a req uid f t False) d"
      "d' = post (terminal_row pg env a req uid f t False) d" by (simp_all add: terminal_row_def)
    from that [OF 1(1) this v] show ?thesis .
  next
    case False
    with unf have u: "apply_transfer pg env a ?tid req d0 = Inr d'"
      and v: "v' = fresh_vars\<lparr>result := \<lparr>transfer = answered req (terminal_row pg env a req uid f t True), Replay = False\<rparr>\<rparr>"
      by (auto simp: answered_terminal started_def split: sum.splits)
    from apply_transfer_post [OF assms(2) 1(1,2) u] have "can_post (terminal_row pg env a req uid f t True) d"
      "d' = post (terminal_row pg env a req uid f t True) d" by (simp_all add: terminal_row_def)
    from that [OF 1(1) this v] show ?thesis .
  qed
qed

lemma transferByKey_Inr:
  assumes "transferByKey pg c userID key d = Inr (t, fp)"
  shows "\<exists>uid r. bind_uuid pg userID = Inr uid \<and> r \<in> set (transfers d) \<and> idem_key r = (uid, key) \<and>
    t = transfer_of r \<and> fp = t_request_fingerprint r"
  using assms
  by (auto simp: transferByKey_def query_row_def select_by_key_def bind_text_def
      split: sum.splits query_outcome.splits option.splits if_splits dest!: find_Some_in)

lemma transfer_body_replayed:
  assumes "transfer_body pg env req a v d = (v', r, d')" and "replayed v'"
  shows "r = Some errReplay"
  using assms
  by (auto simp: transfer_body_def Let_def fresh_vars_def split: sum.splits prod.splits if_splits)

section \<open>Lemmas: a whole call of Transfer\<close>

lemma store_Transfer_db:
  assumes "store_Transfer pg env c req d = (res, d', rs)" and "schema_ok d"
  shows "d' = d \<or> (\<exists>a uid f t okay. bound_request pg req uid f t \<and>
    can_post (terminal_row pg env a req uid f t okay) d \<and> d' = post (terminal_row pg env a req uid f t okay) d)"
proof (cases "rq_FromWalletID req = rq_ToWalletID req")
  case True
  with assms show ?thesis by (simp add: store_Transfer_def)
next
  case False
  obtain v err d1 rs1 where tx: "inTx env (transfer_body pg env req) fresh_vars d = (v, err, d1, rs1)"
    by (metis prod_cases4)
  with assms(1) False have "d' = d1"
    by (auto simp: store_Transfer_def split: sum.splits option.splits if_splits prod.splits)
  with tx show ?thesis
  proof (cases rule: inTx_cases)
    case failed
    then show ?thesis using \<open>d' = d1\<close> by simp
  next
    case (committed b v0)
    from transfer_body_commit [OF committed(3) assms(2)] \<open>d' = d1\<close> show ?thesis by metis
  qed
qed

lemma store_Transfer_store_ok [keeps_intros]:
  assumes "store_ok d" and "store_Transfer pg env c req d = (res, d', rs)"
  shows "store_ok d'"
  using store_Transfer_db [OF assms(2)] assms(1) by (auto intro: post_store_ok)

text \<open>A used key has no effect, whatever fails.\<close>

lemma store_Transfer_key_used:
  assumes "store_Transfer pg env c req d = (res, d', rs)" and "schema_ok d"
    and "bind_uuid pg (RequesterUserID req) = Inr uid"
    and "(uid, rq_IdempotencyKey req) \<in> set (map idem_key (transfers d))"
  shows "d' = d"
  using store_Transfer_db [OF assms(1,2)] assms(3,4)
  by (auto simp: can_post_def transfer_unique_None bound_request_def)

text \<open>A call that returns no error has either posted one row or replayed a stored one.\<close>

lemma store_Transfer_ok_cases:
  assumes "store_Transfer pg env c req d = (Inr tr, d', rs)" and "schema_ok d"
  obtains (applied) a uid f t okay where "bound_request pg req uid f t"
    "can_post (terminal_row pg env a req uid f t okay) d"
    "d' = post (terminal_row pg env a req uid f t okay) d"
    "tr = \<lparr>transfer = answered req (terminal_row pg env a req uid f t okay), Replay = False\<rparr>"
  | (replay) uid r where "d' = d" "r \<in> set (transfers d)" "bind_uuid pg (RequesterUserID req) = Inr uid"
    "idem_key r = (uid, rq_IdempotencyKey req)" "t_request_fingerprint r = request_fingerprint pg req"
    "tr = \<lparr>transfer = transfer_of r, Replay = True\<rparr>"
proof -
  have ne: "rq_FromWalletID req \<noteq> rq_ToWalletID req" using assms(1) by (auto simp: store_Transfer_def)
  obtain v err d1 rs1 where tx: "inTx env (transfer_body pg env req) fresh_vars d = (v, err, d1, rs1)"
    by (metis prod_cases4)
  show ?thesis
  proof (cases "replayed v \<or> (case err of Some e \<Rightarrow> errors_Is e errReplay | None \<Rightarrow> False)")
    case True
    from tx have "d1 = d"
    proof (cases rule: inTx_cases)
      case (committed b v0)
      with True transfer_body_replayed [OF committed(3)] show ?thesis by auto
    qed
    with assms(1) ne tx True obtain t fp where
      "transferByKey pg c (RequesterUserID req) (rq_IdempotencyKey req) d = Inr (t, fp)"
      "fp = request_fingerprint pg req" "d' = d" "tr = \<lparr>transfer = t, Replay = True\<rparr>"
      by (auto simp: store_Transfer_def split: sum.splits prod.splits if_splits)
    with transferByKey_Inr [of pg c _ _ d t fp] replay show ?thesis by metis
  next
    case False
    with assms(1) ne tx have e: "err = None" "d' = d1" "tr = result v"
      by (auto simp: store_Transfer_def split: option.splits if_splits)
    from tx show ?thesis
    proof (cases rule: inTx_cases)
      case (committed b v0)
      from transfer_body_commit [OF committed(3) assms(2)] e show ?thesis
        by (metis applied tx_vars.select_convs(1) tx_vars.surjective tx_vars.update_convs(1))
    qed (use e in simp)
  qed
qed

section \<open>Lemmas: runs in which nothing fails\<close>

definition clear_run :: "txenv \<Rightarrow> bool" where
  "clear_run env \<longleftrightarrow>
     begin_fault env 0 = None \<and> (\<forall>k. stmt_fault env 0 k = None) \<and> commit_result env 0 = CommitOk"

lemma stmt_clear: "clear_run env \<Longrightarrow> stmt env 0 k r = (case r of Inl e \<Rightarrow> Inl (Pg e) | Inr x \<Rightarrow> Inr x)"
  by (simp add: stmt_def clear_run_def)

lemma clear_run_quiet [simp]: "clear_run (quiet now u)"
  by (simp add: clear_run_def quiet_def)

text \<open>A well-formed request with an unused key.\<close>

definition claimable :: "pg \<Rightarrow> txenv \<Rightarrow> TransferRequest \<Rightarrow> uuid \<Rightarrow> uuid \<Rightarrow> uuid \<Rightarrow> db \<Rightarrow> bool" where
  "claimable pg env req uid f t d \<longleftrightarrow>
     bound_request pg req uid f t \<and> 0 < rq_AmountPaise req \<and> f \<noteq> t \<and>
     uid \<in> set (user_ids d) \<and> f \<in> set (wallet_ids d) \<and> t \<in> set (wallet_ids d) \<and>
     new_uuid env 0 \<notin> set (transfer_ids d) \<and>
     (uid, rq_IdempotencyKey req) \<notin> set (map idem_key (transfers d))"

lemma claim_row_check:
  "transfer_check (claim_row pg env a req uid f t) = None \<longleftrightarrow> 0 < rq_AmountPaise req \<and> f \<noteq> t"
  by (auto simp: transfer_check_def claim_row_def decline_reason_ok_def)

lemma claimable_insert:
  "claimable pg env req uid f t d \<Longrightarrow>
   insert_transfer (claim_row pg env 0 req uid f t) d =
     Inr (d\<lparr>transfers := transfers d @ [claim_row pg env 0 req uid f t]\<rparr>)"
  by (simp add: insert_transfer_Inr claim_row_check claimable_def transfer_unique_None transfer_fk_None)

lemma claimable_claim:
  "claimable pg env req uid f t d \<Longrightarrow>
   claim_key_sql pg req (request_fingerprint pg req) (new_uuid env 0) (tx_now env 0) d =
     Inr (d\<lparr>transfers := transfers d @ [claim_row pg env 0 req uid f t]\<rparr>)"
  using claim_key_sql_eq [of pg req uid f t env 0 d] claimable_insert [of pg env req uid f t d]
  by (simp add: claimable_def)

lemma select_wallet_bound:
  "bind_uuid pg i = Inr u \<Longrightarrow> u \<in> set (wallet_ids d) \<Longrightarrow>
   \<exists>w. select_wallet pg i d = Inr (Some w) \<and> w_id w = u \<and> balance_of d u = Some (w_balance_paise w)"
  by (cases "find (\<lambda>w. w_id w = u) (wallets d)")
    (auto simp: select_wallet_def balance_of_def wallet_ids_iff find_None_not dest: find_Some_in)

text \<open>Both wallets are read, keyed by the ids the server knows them by.\<close>

lemma lock_wallets_clear:
  assumes "clear_run env" and "claimable pg env req uid f t d"
    and "lock_order (rq_FromWalletID req) (rq_ToWalletID req) = (lo, hi)"
    and "wallets d0 = wallets d"
  shows "\<exists>m. lock_wallets pg env 0 lo hi d0 = Inr m \<and> m f = balance_of d f \<and> m t = balance_of d t \<and>
    dom m = {f, t}"
proof -
  have w0: "wallet_ids d0 = wallet_ids d" "balance_of d0 = balance_of d"
    using assms(4) by (simp_all add: wallet_ids_def balance_of_def fun_eq_iff del: ids_fold)
  from assms(2) have b: "bind_uuid pg (rq_FromWalletID req) = Inr f" "bind_uuid pg (rq_ToWalletID req) = Inr t"
    "f \<in> set (wallet_ids d0)" "t \<in> set (wallet_ids d0)" "f \<noteq> t"
    by (simp_all add: claimable_def bound_request_def w0)
  from select_wallet_bound [OF b(1,3)] obtain wf where
    f: "select_wallet pg (rq_FromWalletID req) d0 = Inr (Some wf)" "w_id wf = f" "balance_of d f = Some (w_balance_paise wf)"
    by (auto simp: w0)
  from select_wallet_bound [OF b(2,4)] obtain wt where
    t: "select_wallet pg (rq_ToWalletID req) d0 = Inr (Some wt)" "w_id wt = t" "balance_of d t = Some (w_balance_paise wt)"
    by (auto simp: w0)
  from assms(3) have "lo = rq_FromWalletID req \<and> hi = rq_ToWalletID req \<or> lo = rq_ToWalletID req \<and> hi = rq_FromWalletID req"
    by (auto simp: lock_order_def split: if_splits)
  with f t b(5) assms(1) show ?thesis
    by (auto simp: lock_wallets_def stmt_clear)
qed

text \<open>The three statements on balances and the ledger, when their conditions hold.\<close>

lemma wallet_hit:
  assumes "schema_ok d" and "balance_of d u = Some b"
  shows "rows_affected (\<lambda>w. w_id w = u) (wallets d) = 1"
    and "\<And>x. x \<in> set (wallets d) \<Longrightarrow> w_id x = u \<Longrightarrow> w_balance_paise x = b"
proof -
  obtain w where w: "w \<in> set (wallets d)" "w_id w = u" using assms by (auto simp: balance_of_iff)
  have "distinct (map w_id (wallets d))" using assms(1) by (simp add: schema_simps)
  from rows_affected_key [OF this w(1)] w(2) show "rows_affected (\<lambda>w. w_id w = u) (wallets d) = 1" by simp
  show "\<And>x. x \<in> set (wallets d) \<Longrightarrow> w_id x = u \<Longrightarrow> w_balance_paise x = b"
    using balance_of_wallet [OF assms(1)] assms(2) by fastforce
qed

lemma debit_sql_clear:
  assumes "schema_ok d" and "bind_uuid pg i = Inr f" and "balance_of d f = Some b" and "0 < n" and "n \<le> b"
  shows "debit_sql pg n i now d = Inr (1, d\<lparr>wallets := credit f (- n) now (wallets d)\<rparr>)"
proof -
  let ?P = "\<lambda>w. w_id w = f \<and> n \<le> w_balance_paise w"
  note hit = wallet_hit [OF assms(1,3)]
  obtain w where w: "w \<in> set (wallets d)" "w_id w = f" using assms(1,3) by (auto simp: balance_of_iff)
  have "rows_affected ?P (wallets d) = rows_affected (\<lambda>x. w_id x = f) (wallets d)"
    using hit(2) assms(5) unfolding rows_affected_def by (intro arg_cong [where f = length] filter_cong) auto
  moreover have "\<forall>x \<in> set (wallets d). ?P x \<longrightarrow> in_int64 (w_balance_paise x + - n) \<and> 0 \<le> w_balance_paise x + - n"
    using hit(2) assms(4,5) balance_of_bounds [OF assms(1,3)] by (auto simp: in_int64_def int64_min_def)
  ultimately show ?thesis
    using hit debit_is_credit [OF assms(1) w, of n] w assms(5)
    by (simp add: debit_sql_def assms(2) update_balance_Inr credit_def)
qed

lemma credit_sql_clear:
  assumes "schema_ok d" and "bind_uuid pg i = Inr t" and "balance_of d t = Some c" and "0 < n"
    and "c + n \<le> int64_max"
  shows "credit_sql pg n i now d = Inr (1, d\<lparr>wallets := credit t n now (wallets d)\<rparr>)"
  using wallet_hit [OF assms(1,3)] balance_of_bounds [OF assms(1,3)] assms(4,5)
  by (simp add: credit_sql_def assms(2) update_balance_Inr credit_def in_int64_def int64_min_def)

lemma credit_sql_overflow:
  assumes "schema_ok d" and "bind_uuid pg i = Inr t" and "balance_of d t = Some c" and "int64_max < c + n"
  shows "credit_sql pg n i now d = Inl (PgError ''22003'' '''')"
  using assms
  by (auto simp: credit_sql_def update_balance_def Let_def list_ex_iff in_int64_def balance_of_iff)

lemma ledger_sql_clear:
  assumes "bound_request pg req uid f t" and "0 < rq_AmountPaise req" and "rq_AmountPaise req \<le> int64_max"
    and "tid \<in> set (transfer_ids d)" and "f \<in> set (wallet_ids d)" and "t \<in> set (wallet_ids d)"
  obtains d3 where "ledger_sql pg tid req now d = Inr d3" "transfers d3 = transfers d"
proof -
  have "wrap64 (- rq_AmountPaise req) = - rq_AmountPaise req"
    using assms(2,3) by (intro wrap64_id) (simp add: in_int64_def int64_min_def int64_max_def)
  with assms that show ?thesis
    by (simp add: ledger_sql_def bound_request_def insert_ledger_Inr ledger_check_def ledger_fk_None)
qed

lemma finish_clear:
  assumes "i \<notin> set (map t_id ts)" and "transfers d = ts @ [r]" and "t_id r = i" and "transfer_check (g r) = None"
  shows "update_transfer i g d = Inr (1, d\<lparr>transfers := ts @ [g r]\<rparr>)"
proof -
  have "rows_affected (\<lambda>t. t_id t = i) (ts @ [r]) = 1"
    using assms(1,3) by (auto simp: rows_affected_def filter_empty_conv image_iff)
  moreover have "\<forall>t \<in> set (transfers d). t_id t = i \<longrightarrow> transfer_check (g t) = None"
    using assms by (auto simp: image_iff)
  ultimately show ?thesis
    using finish_new_row [OF assms(1,3), of g] by (simp add: update_transfer_Inr assms(2))
qed

lemma terminal_row_check:
  "0 < rq_AmountPaise req \<Longrightarrow> f \<noteq> t \<Longrightarrow> transfer_check (succeed_row now (claim_row pg env a req uid f t)) = None"
  "0 < rq_AmountPaise req \<Longrightarrow> f \<noteq> t \<Longrightarrow> transfer_check (decline_row why now (claim_row pg env a req uid f t)) = None"
  by (simp_all add: transfer_check_def succeed_row_def decline_row_def claim_row_def decline_reason_ok_def)

text \<open>
  With enough money and room for it, the second batch goes through; without room the
  server refuses the sum.
\<close>

lemma apply_transfer_clear:
  assumes "clear_run env" and "claimable pg env req uid f t d" and "schema_ok d"
    and "balance_of d f = Some b" and "balance_of d t = Some c" and "rq_AmountPaise req \<le> b"
  defines "d0 \<equiv> d\<lparr>transfers := transfers d @ [claim_row pg env 0 req uid f t]\<rparr>"
  shows "c + rq_AmountPaise req \<le> int64_max \<Longrightarrow> \<exists>d'. apply_transfer pg env 0 (new_uuid env 0) req d0 = Inr d'"
    and "int64_max < c + rq_AmountPaise req \<Longrightarrow>
      apply_transfer pg env 0 (new_uuid env 0) req d0 = Inl (Pg (PgError ''22003'' ''''))"
proof -
  let ?n = "rq_AmountPaise req" and ?now = "tx_now env 0"
  let ?d1 = "d0\<lparr>wallets := credit f (- ?n) ?now (wallets d0)\<rparr>"
  let ?d2 = "?d1\<lparr>wallets := credit t ?n ?now (wallets ?d1)\<rparr>"
  from assms(2) have br: "bound_request pg req uid f t" and q: "bind_uuid pg (rq_FromWalletID req) = Inr f"
    "bind_uuid pg (rq_ToWalletID req) = Inr t" "0 < ?n" "f \<noteq> t" "f \<in> set (wallet_ids d)" "t \<in> set (wallet_ids d)"
    by (simp_all add: claimable_def bound_request_def)
  have s0: "schema_ok d0"
    using insert_transfer_schema [OF claimable_insert [OF assms(2)] assms(3)] by (simp add: d0_def)
  have b0: "balance_of d0 f = Some b" "balance_of d0 t = Some c"
    using assms(4,5) by (simp_all add: d0_def balance_of_def)
  from debit_sql_clear [OF s0 q(1) b0(1) q(3) assms(6)]
  have debit: "debit_sql pg ?n (rq_FromWalletID req) ?now d0 = Inr (1, ?d1)" .
  have s1: "schema_ok ?d1"
    using s0 b0(1) q(3) assms(6) balance_of_bounds [OF s0 b0(1)] by (intro credit_schema) auto
  have b1: "balance_of ?d1 t = Some c" using b0 q(4) by (simp add: balance_of_credit)
  show "apply_transfer pg env 0 (new_uuid env 0) req d0 = Inl (Pg (PgError ''22003'' ''''))"
    if "int64_max < c + ?n"
    using debit credit_sql_overflow [OF s1 q(2) b1 that]
    by (simp add: apply_transfer_def stmt_clear [OF assms(1)])
  assume "c + ?n \<le> int64_max"
  from credit_sql_clear [OF s1 q(2) b1 q(3) this]
  have credit: "credit_sql pg ?n (rq_ToWalletID req) ?now ?d1 = Inr (1, ?d2)" .
  have "?n \<le> int64_max" using assms(6) balance_of_bounds [OF assms(3,4)] by simp
  then obtain d3 where ledger: "ledger_sql pg (new_uuid env 0) req ?now ?d2 = Inr d3" and "transfers d3 = transfers d0"
    by (rule ledger_sql_clear [OF br q(3), of "new_uuid env 0" ?d2 ?now]) (use q in \<open>simp_all add: d0_def\<close>)
  moreover have "new_uuid env 0 \<notin> set (map t_id (transfers d))" using assms(2) by (simp add: claimable_def)
  ultimately have "\<exists>n d4. update_transfer (new_uuid env 0) (succeed_row ?now) d3 = Inr (n, d4)"
    using finish_clear [of "new_uuid env 0" "transfers d" d3 "claim_row pg env 0 req uid f t" "succeed_row ?now"] q(3,4)
    by (simp add: d0_def terminal_row_check)
  with debit credit ledger show "\<exists>d'. apply_transfer pg env 0 (new_uuid env 0) req d0 = Inr d'"
    by (auto simp: apply_transfer_def stmt_clear [OF assms(1)])
qed


section \<open>Lemmas: the outcome of an undisturbed call\<close>

text \<open>The balance that the decision compares: the entry of the Go map under the request's text.\<close>

definition seen_balance :: "TransferRequest \<Rightarrow> uuid \<Rightarrow> uuid \<Rightarrow> db \<Rightarrow> paise" where
  "seen_balance req f t d =
     (if rq_FromWalletID req = f then the (balance_of d f)
      else if rq_FromWalletID req = t then the (balance_of d t)
      else 0)"

lemma transfer_body_clear:
  assumes "clear_run env" and "claimable pg env req uid f t d" and "schema_ok d"
  shows "seen_balance req f t d < rq_AmountPaise req \<Longrightarrow>
      transfer_body pg env req 0 v d =
        (fresh_vars\<lparr>result := \<lparr>transfer = answered req (terminal_row pg env 0 req uid f t False), Replay = False\<rparr>\<rparr>,
         None, post (terminal_row pg env 0 req uid f t False) d)"
    and "\<not> seen_balance req f t d < rq_AmountPaise req \<Longrightarrow>
      apply_transfer pg env 0 (new_uuid env 0) req (d\<lparr>transfers := transfers d @ [claim_row pg env 0 req uid f t]\<rparr>) = Inr d' \<Longrightarrow>
      transfer_body pg env req 0 v d =
        (fresh_vars\<lparr>result := \<lparr>transfer = answered req (terminal_row pg env 0 req uid f t True), Replay = False\<rparr>\<rparr>,
         None, post (terminal_row pg env 0 req uid f t True) d)"
    and "\<not> seen_balance req f t d < rq_AmountPaise req \<Longrightarrow>
      apply_transfer pg env 0 (new_uuid env 0) req (d\<lparr>transfers := transfers d @ [claim_row pg env 0 req uid f t]\<rparr>) = Inl e \<Longrightarrow>
      \<exists>w. transfer_body pg env req 0 v d = (fresh_vars, Some e, w)"
proof -
  let ?d0 = "d\<lparr>transfers := transfers d @ [claim_row pg env 0 req uid f t]\<rparr>"
  have claim: "stmt env 0 0 (claim_key_sql pg req (request_fingerprint pg req) (new_uuid env 0) (tx_now env 0) d) = Inr ?d0"
    by (simp add: stmt_clear [OF assms(1)] claimable_claim [OF assms(2)])
  obtain lo hi where lock: "lock_order (rq_FromWalletID req) (rq_ToWalletID req) = (lo, hi)" by fastforce
  from lock_wallets_clear [OF assms(1,2) lock, of ?d0] obtain m where
    m: "lock_wallets pg env 0 lo hi ?d0 = Inr m" "m f = balance_of d f" "m t = balance_of d t" "dom m = {f, t}"
    by auto
  have "balance_of d f \<noteq> None" "balance_of d t \<noteq> None"
    using assms(2) by (simp_all only: balance_of_in_ids claimable_def)
  moreover have not_in_dom: "x \<notin> {f, t} \<Longrightarrow> m x = None" for x using m(4) by (metis domIff)
  ultimately have seen: "map_read m (rq_FromWalletID req) = seen_balance req f t d"
    using m(2,3) not_in_dom by (simp add: map_read_def seen_balance_def) (auto simp: domIff)
  note body = transfer_body_def Let_def claim sum.case lock prod.case m(1) seen
  from assms(2) have new: "new_uuid env 0 \<notin> set (map t_id (transfers d))" and n: "0 < rq_AmountPaise req" "f \<noteq> t"
    and br: "bound_request pg req uid f t" by (simp_all add: claimable_def)
  show "\<exists>w. transfer_body pg env req 0 v d = (fresh_vars, Some e, w)"
    if "\<not> seen_balance req f t d < rq_AmountPaise req" "apply_transfer pg env 0 (new_uuid env 0) req ?d0 = Inl e"
    unfolding body using that by simp
  show "transfer_body pg env req 0 v d =
      (fresh_vars\<lparr>result := \<lparr>transfer = answered req (terminal_row pg env 0 req uid f t True), Replay = False\<rparr>\<rparr>,
       None, post (terminal_row pg env 0 req uid f t True) d)"
    if "\<not> seen_balance req f t d < rq_AmountPaise req" and a: "apply_transfer pg env 0 (new_uuid env 0) req ?d0 = Inr d'"
    unfolding body using that apply_transfer_post [OF assms(3) br claimable_insert [OF assms(2)] a]
    by (simp add: answered_terminal started_def) (simp add: terminal_row_def)
  let ?g = "decline_row ReasonInsufficientFunds (tx_now env 0)"
  have u: "update_transfer (new_uuid env 0) ?g ?d0 = Inr (1, ?d0\<lparr>transfers := transfers d @ [?g (claim_row pg env 0 req uid f t)]\<rparr>)"
    using new n by (intro finish_clear) (simp_all add: terminal_row_check)
  show "transfer_body pg env req 0 v d =
      (fresh_vars\<lparr>result := \<lparr>transfer = answered req (terminal_row pg env 0 req uid f t False), Replay = False\<rparr>\<rparr>,
       None, post (terminal_row pg env 0 req uid f t False) d)"
    if "seen_balance req f t d < rq_AmountPaise req"
    unfolding body using that decline_post [OF claimable_insert [OF assms(2)] u]
    by (simp add: stmt_clear [OF assms(1)] u answered_terminal) (simp add: terminal_row_def)
qed

lemma claimable_distinct_texts: "claimable pg env req uid f t d \<Longrightarrow> rq_FromWalletID req \<noteq> rq_ToWalletID req"
  by (auto simp: claimable_def bound_request_def)

text \<open>What an undisturbed first call returns and leaves behind, for each decision.\<close>

lemma store_Transfer_clear:
  assumes "clear_run env" and "claimable pg env req uid f t d" and "schema_ok d"
    and "transfer_body pg env req 0 fresh_vars d =
      (fresh_vars\<lparr>result := \<lparr>transfer = answered req r, Replay = False\<rparr>\<rparr>, None, d')"
  shows "store_Transfer pg env c req d = (Inr \<lparr>transfer = answered req r, Replay = False\<rparr>, d', [])"
proof -
  from assms(1) have "begin_fault env 0 = None" "commit_result env 0 = CommitOk" by (simp_all add: clear_run_def)
  from inTx_first [of env "transfer_body pg env req" fresh_vars d, OF this(1) assms(4) this(2)]
  show ?thesis using claimable_distinct_texts [OF assms(2)]
    by (simp add: store_Transfer_def) (simp add: fresh_vars_def)
qed

lemma store_Transfer_declined:
  assumes "clear_run env" and "claimable pg env req uid f t d" and "schema_ok d"
    and "seen_balance req f t d < rq_AmountPaise req"
  shows "store_Transfer pg env c req d =
    (Inr \<lparr>transfer = answered req (terminal_row pg env 0 req uid f t False), Replay = False\<rparr>,
     post (terminal_row pg env 0 req uid f t False) d, [])"
  using store_Transfer_clear [OF assms(1-3) transfer_body_clear(1) [OF assms]] .

lemma store_Transfer_succeeded:
  assumes "clear_run env" and "claimable pg env req uid f t d" and "schema_ok d"
    and "rq_FromWalletID req = f" and "balance_of d f = Some b" and "balance_of d t = Some c"
    and "rq_AmountPaise req \<le> b" and "c + rq_AmountPaise req \<le> int64_max"
  shows "store_Transfer pg env q req d =
    (Inr \<lparr>transfer = answered req (terminal_row pg env 0 req uid f t True), Replay = False\<rparr>,
     post (terminal_row pg env 0 req uid f t True) d, [])"
proof -
  from apply_transfer_clear(1) [OF assms(1-3,5-8)] obtain d' where
    a: "apply_transfer pg env 0 (new_uuid env 0) req (d\<lparr>transfers := transfers d @ [claim_row pg env 0 req uid f t]\<rparr>) = Inr d'"
    by blast
  have "\<not> seen_balance req f t d < rq_AmountPaise req" using assms(4,5,7) by (simp add: seen_balance_def)
  from transfer_body_clear(2) [OF assms(1-3) this a]
  show ?thesis by (rule store_Transfer_clear [OF assms(1-3)])
qed

lemma store_Transfer_overflow:
  assumes "clear_run env" and "claimable pg env req uid f t d" and "schema_ok d"
    and "rq_FromWalletID req = f" and "balance_of d f = Some b" and "balance_of d t = Some c"
    and "rq_AmountPaise req \<le> b" and "int64_max < c + rq_AmountPaise req"
  shows "store_Transfer pg env q req d = (Inl (Pg (PgError ''22003'' '''')), d, [])"
proof -
  note a = apply_transfer_clear(2) [OF assms(1-3,5-8)]
  have "\<not> seen_balance req f t d < rq_AmountPaise req" using assms(4,5,7) by (simp add: seen_balance_def)
  from transfer_body_clear(3) [OF assms(1-3) this a, of fresh_vars] obtain w where
    b: "transfer_body pg env req 0 fresh_vars d = (fresh_vars, Some (Pg (PgError ''22003'' '''')), w)" by blast
  from assms(1) have "begin_fault env 0 = None" by (simp add: clear_run_def)
  from inTx_first_error [of env "transfer_body pg env req", OF this b] claimable_distinct_texts [OF assms(2)] show ?thesis
    by (simp add: store_Transfer_def) (simp add: fresh_vars_def)
qed

text \<open>A call with a used key: the insert loses on the key's index and the stored row is read.\<close>

lemma store_Transfer_replay:
  assumes "begin_fault env 0 = None" and "stmt_fault env 0 0 = None" and "q_outcome q = QueryOk"
    and "schema_ok d" and "bound_request pg req uid f t" and "0 < rq_AmountPaise req" and "f \<noteq> t"
    and "new_uuid env 0 \<notin> set (transfer_ids d)"
    and "r \<in> set (transfers d)" and "idem_key r = (uid, rq_IdempotencyKey req)"
  shows "store_Transfer pg env q req d =
    (if t_request_fingerprint r = request_fingerprint pg req
     then (Inr \<lparr>transfer = transfer_of r, Replay = True\<rparr>, d, [])
     else (Inl ErrIdempotencyConflict, d, []))"
proof -
  have "claim_key_sql pg req (request_fingerprint pg req) (new_uuid env 0) (tx_now env 0) d =
      Inl (unique_violation ''transfers_idem_key'')"
    using assms(6-10) claim_row_check [of pg env 0 req uid f t]
    by (force simp: claim_key_sql_eq [OF assms(5)] insert_transfer_def transfer_unique_def)
  then have body: "transfer_body pg env req 0 fresh_vars d = (fresh_vars\<lparr>replayed := True\<rparr>, Some errReplay, d)"
    by (simp add: transfer_body_def Let_def stmt_def assms(2) unique_violation_def sqlstate_defs)
  have tx: "inTx env (transfer_body pg env req) fresh_vars d = (fresh_vars\<lparr>replayed := True\<rparr>, Some errReplay, d, [])"
    by (rule inTx_first_error [of env "transfer_body pg env req", OF assms(1) body]) simp
  have dist: "distinct (map idem_key (transfers d))" using assms(4) by (simp add: schema_simps)
  from find_key_unique [OF dist assms(9)] assms(10)
  have "transferByKey pg q (RequesterUserID req) (rq_IdempotencyKey req) d = Inr (transfer_of r, t_request_fingerprint r)"
    using assms(3,5) by (simp add: transferByKey_def query_row_def select_by_key_def bound_request_def bind_text_def)
  moreover have "rq_FromWalletID req \<noteq> rq_ToWalletID req"
    using assms(5,7) by (auto simp: bound_request_def)
  ultimately show ?thesis by (simp add: store_Transfer_def tx)
qed

text \<open>An error that is not a lost connection leaves the database alone.\<close>

lemma store_Transfer_error_db:
  assumes "store_Transfer pg env c req d = (Inl e, d', rs)" and "e \<noteq> ErrConn"
  shows "d' = d"
proof (cases "rq_FromWalletID req = rq_ToWalletID req")
  case True
  with assms show ?thesis by (simp add: store_Transfer_def)
next
  case False
  obtain v err d1 rs1 where tx: "inTx env (transfer_body pg env req) fresh_vars d = (v, err, d1, rs1)"
    by (metis prod_cases4)
  with assms(1) False have d1: "d' = d1"
    by (auto simp: store_Transfer_def split: sum.splits option.splits if_splits prod.splits)
  from tx show ?thesis
  proof (cases rule: inTx_cases)
    case failed
    then show ?thesis using d1 by simp
  next
    case (committed b v0)
    then have "\<not> replayed v" using transfer_body_replayed [OF committed(3)] by auto
    with committed(4) assms False tx show ?thesis by (auto simp: store_Transfer_def)
  qed
qed

end
