(* ===== verification/Store_Runs.thy ===== *)
theory Store_Runs
  imports Transfer_Store
begin

text \<open>
  Sequences of calls on the store, in any order, by any callers and with any failures. Two
  interfaces are stated as locales and instantiated with the store: a component whose every
  step keeps an invariant, and one whose steps only append to a table. What follows from
  the contracts alone (the invariant after any run, the stability of a lookup) is proved
  there once.
\<close>

section \<open>Interfaces\<close>

locale stepped_store =
  fixes step :: "'op \<Rightarrow> 's \<Rightarrow> 's" and ok :: "'s \<Rightarrow> bool" and init :: 's
  assumes init_ok: "ok init"
    and step_ok: "ok s \<Longrightarrow> ok (step op s)"
begin

lemma run_ok: "ok s \<Longrightarrow> ok (fold step ops s)"
  by (induction ops arbitrary: s) (simp_all add: step_ok)

lemma run_init_ok: "ok (fold step ops init)"
  by (rule run_ok) (rule init_ok)

end

locale append_only = stepped_store step ok init
  for step :: "'op \<Rightarrow> 's \<Rightarrow> 's" and ok :: "'s \<Rightarrow> bool" and init :: 's +
  fixes rows :: "'s \<Rightarrow> 'r list"
  assumes step_appends: "ok s \<Longrightarrow> \<exists>new. rows (step op s) = rows s @ new"
begin

lemma run_appends: "ok s \<Longrightarrow> \<exists>new. rows (fold step ops s) = rows s @ new"
proof (induction ops arbitrary: s)
  case Nil
  then show ?case by simp
next
  case (Cons op ops)
  from step_appends [OF Cons.prems] obtain n1 where "rows (step op s) = rows s @ n1" by blast
  moreover from Cons.IH [OF step_ok [OF Cons.prems]] obtain n2
    where "rows (fold step ops (step op s)) = rows (step op s) @ n2" by blast
  ultimately show ?case by simp
qed

lemma run_member: "ok s \<Longrightarrow> r \<in> set (rows s) \<Longrightarrow> r \<in> set (rows (fold step ops s))"
  using run_appends [of s ops] by auto

lemma run_find: "ok s \<Longrightarrow> find P (rows s) = Some r \<Longrightarrow> find P (rows (fold step ops s)) = Some r"
  using run_appends [of s ops] by (auto simp: find_append)

end

section \<open>The calls that change the database\<close>

datatype store_op =
    OpUpsertUser callenv string
  | OpGetOrCreateWallet callenv string
  | OpMint txenv string string paise
  | OpTransfer txenv callenv TransferRequest

fun store_step :: "pg \<Rightarrow> store_op \<Rightarrow> db \<Rightarrow> db" where
  "store_step pg (OpUpsertUser c token) d = snd (UpsertUser pg c token d)"
| "store_step pg (OpGetOrCreateWallet c userID) d = snd (GetOrCreateWallet pg c userID d)"
| "store_step pg (OpMint env walletID key n) d = fst (snd (Mint pg env walletID key n d))"
| "store_step pg (OpTransfer env c req) d = fst (snd (store_Transfer pg env c req d))"

definition store_run :: "pg \<Rightarrow> store_op list \<Rightarrow> db \<Rightarrow> db" where
  "store_run pg ops d = fold (store_step pg) ops d"

section \<open>Lemmas: the store meets the interfaces\<close>

lemma store_step_ok: "store_ok d \<Longrightarrow> store_ok (store_step pg op d)"
  by (cases op)
    (auto intro: keeps_intros simp: prod_eq_iff)

lemma UpsertUser_tables:
  assumes "UpsertUser pg c token d = (r, d')"
  shows "wallets d' = wallets d \<and> transfers d' = transfers d \<and> mints d' = mints d \<and> ledger_entries d' = ledger_entries d"
proof -
  from assms obtain x where "autocommit c (upsert_user_sql (TokenHash pg token) (q_uuid c) (q_now c) d) d = (x, d')"
    by (auto simp: UpsertUser_def split: prod.splits sum.splits)
  from autocommit_db [OF this] show ?thesis
    by (auto simp: upsert_user_sql_def insert_user_Inr split: option.splits sum.splits)
qed

lemma GetOrCreateWallet_tables:
  assumes "GetOrCreateWallet pg c userID d = (r, d')"
  shows "(\<exists>new. wallets d' = wallets d @ new \<and> (\<forall>w \<in> set new. w_balance_paise w = 0)) \<and>
    users d' = users d \<and> transfers d' = transfers d \<and> mints d' = mints d \<and> ledger_entries d' = ledger_entries d"
  using autocommit_db [OF assms [unfolded GetOrCreateWallet_def]]
  by (auto simp: get_or_create_sql_def insert_wallet_Inr Let_def split: option.splits sum.splits)

lemma store_step_tables:
  assumes "store_ok d"
  shows "(\<exists>new. transfers (store_step pg op d) = transfers d @ new) \<and>
    (\<exists>new. mints (store_step pg op d) = mints d @ new)"
proof (cases op)
  case (OpUpsertUser c token)
  obtain r d' where "UpsertUser pg c token d = (r, d')" by fastforce
  with UpsertUser_tables [OF this] OpUpsertUser show ?thesis by simp
next
  case (OpGetOrCreateWallet c userID)
  obtain r d' where "GetOrCreateWallet pg c userID d = (r, d')" by fastforce
  with GetOrCreateWallet_tables [OF this] OpGetOrCreateWallet show ?thesis by simp
next
  case (OpMint env i k n)
  obtain r d' rs where "Mint pg env i k n d = (r, d', rs)" by (metis prod_cases3)
  with Mint_db [OF this store_okD(1) [OF assms]] OpMint show ?thesis by (auto simp: deposit_def)
next
  case (OpTransfer env c req)
  obtain r d' rs where "store_Transfer pg env c req d = (r, d', rs)" by (metis prod_cases3)
  with store_Transfer_db [OF this store_okD(1) [OF assms]] OpTransfer show ?thesis by (auto simp: post_def)
qed

interpretation st: stepped_store "store_step pg" store_ok empty_db for pg
  by unfold_locales (simp_all add: store_ok_empty store_step_ok)

interpretation tlog: append_only "store_step pg" store_ok empty_db transfers for pg
  by unfold_locales (simp add: store_step_tables)

interpretation mlog: append_only "store_step pg" store_ok empty_db mints for pg
  by unfold_locales (simp add: store_step_tables)

lemma store_run_ok: "store_ok d \<Longrightarrow> store_ok (store_run pg ops d)"
  unfolding store_run_def by (rule st.run_ok)

lemma store_run_transfer: "store_ok d \<Longrightarrow> r \<in> set (transfers d) \<Longrightarrow> r \<in> set (transfers (store_run pg ops d))"
  unfolding store_run_def by (rule tlog.run_member)

end
