(* ===== verification/Samples.thy ===== *)
theory Samples
  imports Store_Runs
begin

text \<open>
  Concrete inputs for the witnesses: a server whose \<open>uuid\<close> input follows the documented
  syntax (upper or lower case, optional braces, optional hyphens after groups of four
  digits), and a small database with two users, two wallets and one mint.
\<close>

section \<open>A concrete server\<close>

definition hex_lower :: "char \<Rightarrow> char" where
  "hex_lower c = (if CHR ''A'' \<le> c \<and> c \<le> CHR ''F'' then char_of (of_char c + 32 :: nat) else c)"

definition is_hex :: "char \<Rightarrow> bool" where
  "is_hex c \<longleftrightarrow> is_digit c \<or> (CHR ''a'' \<le> hex_lower c \<and> hex_lower c \<le> CHR ''f'')"

text \<open>The digits of a uuid text: \<open>n\<close> of them have been read, \<open>h\<close> tells whether a hyphen may follow.\<close>

fun uuid_digits :: "nat \<Rightarrow> bool \<Rightarrow> string \<Rightarrow> string option" where
  "uuid_digits n h [] = (if n = 32 then Some [] else None)"
| "uuid_digits n h (c # cs) =
     (if c = CHR ''-'' then (if h then uuid_digits n False cs else None)
      else if is_hex c \<and> n < 32
        then map_option ((#) (hex_lower c)) (uuid_digits (Suc n) (Suc n mod 4 = 0 \<and> Suc n < 32) cs)
      else None)"

definition unbrace :: "string \<Rightarrow> string" where
  "unbrace s = (if s \<noteq> [] \<and> hd s = CHR ''{'' \<and> last s = CHR ''}'' then butlast (tl s) else s)"

definition uuid_group :: "string \<Rightarrow> uuid" where
  "uuid_group ds =
     take 8 ds @ ''-'' @ take 4 (drop 8 ds) @ ''-'' @ take 4 (drop 12 ds) @ ''-'' @
     take 4 (drop 16 ds) @ ''-'' @ drop 20 ds"

definition sample_pg :: pg where
  "sample_pg =
     \<lparr>uuid_in = (\<lambda>s. map_option uuid_group (uuid_digits 0 False (unbrace s))),
      text_ok = (\<lambda>s. CHR 0x00 \<notin> set s),
      sha256 = (\<lambda>s. s)\<rparr>"

section \<open>A concrete database\<close>

definition alice :: uuid where "alice = ''00000000-0000-0000-0000-0000000000a1''"
definition bob :: uuid where "bob = ''00000000-0000-0000-0000-0000000000b1''"
definition wallet_a :: uuid where "wallet_a = ''00000000-0000-0000-0000-00000000000a''"
definition wallet_b :: uuid where "wallet_b = ''00000000-0000-0000-0000-00000000000b''"
definition mint_1 :: uuid where "mint_1 = ''00000000-0000-0000-0000-0000000000c1''"
definition transfer_1 :: uuid where "transfer_1 = ''00000000-0000-0000-0000-0000000000d1''"
definition transfer_2 :: uuid where "transfer_2 = ''00000000-0000-0000-0000-0000000000d2''"

definition sample_db :: db where
  "sample_db =
     \<lparr>users = [\<lparr>u_id = alice, u_token_hash = ''alice'', u_created_at = 1\<rparr>,
               \<lparr>u_id = bob, u_token_hash = ''bob'', u_created_at = 2\<rparr>],
      wallets = [\<lparr>w_id = wallet_a, w_user_id = alice, w_balance_paise = 1000, w_created_at = 3, w_updated_at = 5\<rparr>,
                 \<lparr>w_id = wallet_b, w_user_id = bob, w_balance_paise = 0, w_created_at = 4, w_updated_at = 4\<rparr>],
      transfers = [], ledger_entries = [],
      mints = [\<lparr>m_id = mint_1, m_idempotency_key = ''seed'', m_wallet_id = wallet_a,
                m_amount_paise = 1000, m_created_at = 5\<rparr>]\<rparr>"

definition sample_req :: "paise \<Rightarrow> TransferRequest" where
  "sample_req n =
     \<lparr>RequesterUserID = alice, rq_FromWalletID = wallet_a, rq_ToWalletID = wallet_b,
      rq_AmountPaise = n, rq_IdempotencyKey = ''order-1''\<rparr>"

text \<open>A run from the empty database: two users with wallets, a mint, a transfer and its retry.\<close>

definition sample_ops :: "store_op list" where
  "sample_ops =
     [OpUpsertUser (calm 1 alice) ''alice'', OpUpsertUser (calm 2 bob) ''bob'',
      OpGetOrCreateWallet (calm 3 wallet_a) alice, OpGetOrCreateWallet (calm 4 wallet_b) bob,
      OpMint (quiet 5 mint_1) wallet_a ''seed'' 1000,
      OpTransfer (quiet 6 transfer_1) (calm 6 []) (sample_req 300),
      OpTransfer (quiet 7 transfer_2) (calm 7 []) (sample_req 300)]"

section \<open>Lemmas: the samples are well formed\<close>

lemma sample_ids_distinct [simp]:
  "alice \<noteq> bob" "bob \<noteq> alice" "wallet_a \<noteq> wallet_b" "wallet_b \<noteq> wallet_a"
  "transfer_1 \<noteq> transfer_2" "transfer_2 \<noteq> transfer_1"
  by (simp_all add: alice_def bob_def wallet_a_def wallet_b_def transfer_1_def transfer_2_def)

lemma sample_canonical [simp]:
  "canonical sample_pg alice" "canonical sample_pg bob"
  "canonical sample_pg wallet_a" "canonical sample_pg wallet_b"
  by code_simp+

lemma sample_ids_eval [simp]:
  "user_ids sample_db = [alice, bob]" "wallet_ids sample_db = [wallet_a, wallet_b]"
  "transfer_ids sample_db = []" "transfers sample_db = []" "ledger_entries sample_db = []"
  by (simp_all add: sample_db_def user_ids_def wallet_ids_def transfer_ids_def del: ids_fold)

lemma sample_balances [simp]:
  "balance_of sample_db wallet_a = Some 1000" "balance_of sample_db wallet_b = Some 0"
  by (simp_all add: sample_db_def balance_of_def)

lemma sample_store_ok [simp]: "store_ok sample_db"
  by (simp add: store_ok_def schema_simps books_ok_def minted_to_def ledger_to_def)
    (simp add: sample_db_def int64_max_def)

lemma sample_claimable [simp]:
  "0 < n \<Longrightarrow> claimable sample_pg (quiet now transfer_1) (sample_req n) alice wallet_a wallet_b sample_db"
  by (simp add: claimable_def bound_request_def sample_req_def) (simp add: sample_pg_def)

lemma sample_req_sel [simp]:
  "RequesterUserID (sample_req n) = alice" "rq_FromWalletID (sample_req n) = wallet_a"
  "rq_ToWalletID (sample_req n) = wallet_b" "rq_AmountPaise (sample_req n) = n"
  "rq_IdempotencyKey (sample_req n) = ''order-1''"
  by (simp_all add: sample_req_def)

lemma sample_bound [simp]: "bound_request sample_pg (sample_req n) alice wallet_a wallet_b"
  by (simp add: bound_request_def) (simp add: sample_pg_def)

text \<open>The row of the sample request, its success and its decline.\<close>

definition sample_row :: "paise \<Rightarrow> bool \<Rightarrow> transfer_row" where
  "sample_row n okay =
     terminal_row sample_pg (quiet 9 transfer_1) 0 (sample_req n) alice wallet_a wallet_b okay"

lemma sample_row_sel [simp]:
  "t_id (sample_row n k) = transfer_1" "idem_key (sample_row n k) = (alice, ''order-1'')"
  "t_from_wallet_id (sample_row n k) = wallet_a" "t_to_wallet_id (sample_row n k) = wallet_b"
  "t_amount_paise (sample_row n k) = n"
  "t_request_fingerprint (sample_row n k) = request_fingerprint sample_pg (sample_req n)"
  "t_status (sample_row n k) = (if k then ''succeeded'' else ''declined'')"
  by (simp_all add: sample_row_def)

lemma sample_success:
  assumes "0 < n" and "n \<le> 1000"
  shows "store_Transfer sample_pg (quiet 9 transfer_1) q (sample_req n) sample_db =
    (Inr \<lparr>transfer = answered (sample_req n) (sample_row n True), Replay = False\<rparr>, post (sample_row n True) sample_db, [])"
  unfolding sample_row_def
  by (rule store_Transfer_succeeded [where b = 1000 and c = 0])
    (use assms store_okD(1) [OF sample_store_ok] in \<open>auto simp: int64_max_def\<close>)

lemma sample_decline:
  assumes "1000 < n"
  shows "store_Transfer sample_pg (quiet 9 transfer_1) q (sample_req n) sample_db =
    (Inr \<lparr>transfer = answered (sample_req n) (sample_row n False), Replay = False\<rparr>, post (sample_row n False) sample_db, [])"
  unfolding sample_row_def
  by (rule store_Transfer_declined)
    (use assms store_okD(1) [OF sample_store_ok] in \<open>auto simp: seen_balance_def\<close>)

text \<open>A database in which Bob's balance is the largest \<open>bigint\<close>.\<close>

definition rich_db :: db where
  "rich_db =
     \<lparr>users = [\<lparr>u_id = alice, u_token_hash = ''alice'', u_created_at = 1\<rparr>,
               \<lparr>u_id = bob, u_token_hash = ''bob'', u_created_at = 2\<rparr>],
      wallets = [\<lparr>w_id = wallet_a, w_user_id = alice, w_balance_paise = 1, w_created_at = 3, w_updated_at = 5\<rparr>,
                 \<lparr>w_id = wallet_b, w_user_id = bob, w_balance_paise = int64_max, w_created_at = 4, w_updated_at = 6\<rparr>],
      transfers = [], ledger_entries = [],
      mints = [\<lparr>m_id = mint_1, m_idempotency_key = ''seed'', m_wallet_id = wallet_a,
                m_amount_paise = 1, m_created_at = 5\<rparr>,
               \<lparr>m_id = transfer_2, m_idempotency_key = ''flood'', m_wallet_id = wallet_b,
                m_amount_paise = int64_max, m_created_at = 6\<rparr>]\<rparr>"

lemma rich_db_ids [simp]:
  "user_ids rich_db = [alice, bob]" "wallet_ids rich_db = [wallet_a, wallet_b]"
  "transfer_ids rich_db = []" "transfers rich_db = []" "ledger_entries rich_db = []"
  by (simp_all add: rich_db_def user_ids_def wallet_ids_def transfer_ids_def del: ids_fold)

lemma rich_store_ok: "store_ok rich_db"
  by (simp add: store_ok_def schema_simps books_ok_def minted_to_def ledger_to_def)
    (simp add: rich_db_def int64_max_def mint_1_def transfer_2_def)

lemma rich_db_facts:
  "store_ok rich_db" "balance_of rich_db wallet_a = Some 1" "balance_of rich_db wallet_b = Some int64_max"
  "claimable sample_pg (quiet now transfer_1) (sample_req 1) alice wallet_a wallet_b rich_db"
  using rich_store_ok sample_bound [of 1]
  by (simp_all add: claimable_def balance_of_def) (simp_all add: rich_db_def)

end
