(* ===== verification/Store_Props.thy ===== *)
theory Store_Props
  imports Samples
begin

text \<open>
  The properties of the store: conservation, no overdraft, exactly-once transfers, race-free
  get-or-create as seen by sequences of calls, the outcome of a transfer on every branch,
  error paths, and the audit. Each quantifies over every server, every failure schedule and
  every request.
\<close>

section \<open>Specifications used in the statements\<close>

text \<open>The bank as a map of balances: moving \<open>n\<close> paise.\<close>

definition bank_move :: "uuid \<Rightarrow> uuid \<Rightarrow> paise \<Rightarrow> (uuid \<rightharpoonup> paise) \<Rightarrow> (uuid \<rightharpoonup> paise)" where
  "bank_move f t n bal = bal(f \<mapsto> the (bal f) - n, t \<mapsto> the (bal t) + n)"

text \<open>The same request sent many times, each time with its own failures.\<close>

definition storm :: "pg \<Rightarrow> (txenv \<times> callenv) list \<Rightarrow> TransferRequest \<Rightarrow> db \<Rightarrow> db" where
  "storm pg envs req d = fold (\<lambda>(env, c) d. fst (snd (store_Transfer pg env c req d))) envs d"

section \<open>Lemmas\<close>

lemma storm_key_used:
  assumes "store_ok d" and "bind_uuid pg (RequesterUserID req) = Inr uid"
    and "(uid, rq_IdempotencyKey req) \<in> set (map idem_key (transfers d))"
  shows "storm pg envs req d = d"
proof (induction envs)
  case Nil
  then show ?case by (simp add: storm_def)
next
  case (Cons e envs)
  obtain env c where e: "e = (env, c)" by fastforce
  obtain res d' rs where t: "store_Transfer pg env c req d = (res, d', rs)" by (metis prod_cases3)
  from store_Transfer_key_used [OF t store_okD(1) [OF assms(1)] assms(2,3)] have "d' = d" .
  with Cons e t show ?case by (simp add: storm_def)
qed

lemma CheckInvariants_ok:
  assumes "store_ok d" and "q_outcome c = QueryOk" and "total_minted d \<le> int64_max"
  obtains au where "CheckInvariants c d = Inr au" "AllHold au" "TotalBalancePaise au = total_minted d"
    "LedgerSumPaise au = 0" "NegativeBalances au = 0" "PendingTransfers au = 0"
proof -
  have "0 \<le> total_minted d"
    unfolding total_minted_def using store_okD(1) [OF assms(1)]
    by (intro col_sum_nonneg) (auto simp: schema_simps intro: less_imp_le)
  moreover have "rows_affected (\<lambda>w. w_balance_paise w < 0) (wallets d) = 0"
    using store_okD(1) [OF assms(1)] by (auto simp: rows_affected_0 schema_simps)
  moreover have "rows_affected (\<lambda>t. t_status t = ''pending'') (transfers d) = 0"
    using store_okD(2) [OF assms(1)] by (auto simp: rows_affected_0 books_ok_def)
  ultimately show ?thesis
    using assms(2,3) total_balance_eq [OF assms(1)] ledger_sum_zero [OF store_okD(2) [OF assms(1)]]
    by (intro that) (auto simp: CheckInvariants_def query_row_def in_int64_def int64_min_def count_status_def Let_def)
qed

section \<open>Conservation and no overdraft\<close>

text \<open>
  A call of \<open>Transfer\<close>, whatever it is asked and whatever fails in it, leaves the sum of
  all balances unchanged, equal to what was minted, and the double-entry ledger at zero.
\<close>

theorem transfer_conserves:
  assumes "store_ok d"
  shows "case store_Transfer pg env c req d of (res, d', rs) \<Rightarrow>
    total_balance d' = total_balance d \<and> total_balance d' = total_minted d' \<and> ledger_sum d' = 0"
proof (cases "store_Transfer pg env c req d")
  case (fields res d' rs)
  have ok: "store_ok d'" using assms fields by (rule store_Transfer_store_ok)
  from store_Transfer_db [OF fields store_okD(1) [OF assms]] assms
  have "total_balance d' = total_balance d" by (auto simp: total_balance_post)
  with ok fields show ?thesis by (auto simp: total_balance_eq ledger_sum_zero)
qed

theorem transfer_conserves_witness:
  "store_ok sample_db \<and>
   total_balance (fst (snd (store_Transfer sample_pg (quiet 9 transfer_1) (calm 9 []) (sample_req 400) sample_db))) =
     total_balance sample_db"
  using transfer_conserves [OF sample_store_ok, of sample_pg "quiet 9 transfer_1" "calm 9 []" "sample_req 400"]
  by (simp split: prod.splits)

text \<open>
  C2: In every database that any sequence of store calls with any failures can produce from
  the empty one, no wallet is negative or beyond \<open>bigint\<close>, every balance is its mints plus its
  ledger entries, the ledger holds exactly the two entries of each succeeded transfer, no
  transfer is pending, and no key of a requester is recorded twice.
\<close>

theorem every_run_keeps_books:
  "let d = store_run pg ops empty_db in
     (\<forall>w \<in> set (wallets d). 0 \<le> w_balance_paise w \<and> w_balance_paise w \<le> int64_max \<and>
        w_balance_paise w = minted_to d (w_id w) + ledger_to d (w_id w)) \<and>
     ledger_entries d = concat (map entries_of (transfers d)) \<and>
     ''pending'' \<notin> t_status ` set (transfers d) \<and>
     distinct (map idem_key (transfers d)) \<and> distinct (map w_user_id (wallets d))"
proof -
  have "store_ok (store_run pg ops empty_db)" by (rule store_run_ok [OF store_ok_empty])
  then have "schema_ok (store_run pg ops empty_db)" "books_ok (store_run pg ops empty_db)" by auto
  then show ?thesis by (auto simp: Let_def schema_simps books_ok_def)
qed

theorem every_run_keeps_books_witness:
  "let d = store_run sample_pg sample_ops empty_db in
     map w_balance_paise (wallets d) = [700, 300] \<and> map l_delta_paise (ledger_entries d) = [-300, 300] \<and>
     ledger_entries d = concat (map entries_of (transfers d))"
proof -
  have "map w_balance_paise (wallets (store_run sample_pg sample_ops empty_db)) = [700, 300]" by code_simp
  moreover have "map l_delta_paise (ledger_entries (store_run sample_pg sample_ops empty_db)) = [-300, 300]" by code_simp
  ultimately show ?thesis using every_run_keeps_books [of sample_pg sample_ops] by (simp add: Let_def)
qed

text \<open>
  The audit of any such database answers that every invariant holds, as long as the total
  minted fits an \<open>int64\<close>.
\<close>

theorem every_run_audits_clean:
  assumes "q_outcome c = QueryOk" and "total_minted (store_run pg ops empty_db) \<le> int64_max"
  shows "\<exists>au. CheckInvariants c (store_run pg ops empty_db) = Inr au \<and> AllHold au \<and>
    TotalBalancePaise au = total_minted (store_run pg ops empty_db)"
  using CheckInvariants_ok [OF store_run_ok [OF store_ok_empty] assms] by metis

theorem every_run_audits_clean_witness:
  "\<exists>au. CheckInvariants (calm 7 []) (store_run sample_pg [OpUpsertUser (calm 1 alice) ''alice''] empty_db) = Inr au \<and>
     AllHold au \<and> TotalBalancePaise au = 0"
proof -
  have m: "total_minted (store_run sample_pg [OpUpsertUser (calm 1 alice) ''alice''] empty_db) = 0"
    by (simp add: store_run_def UpsertUser_def upsert_user_sql_def insert_user_def empty_db_def
        user_ids_def total_minted_def calm_def autocommit_def)
  show ?thesis
    using every_run_audits_clean [of "calm 7 []" sample_pg "[OpUpsertUser (calm 1 alice) ''alice'']"] m
    by (simp add: int64_max_def)
qed

text \<open>
  C22: The audit can be trusted in the other direction too: if it answers that all invariants
  hold, the balances sum to the mints, the ledger to zero, and no balance is negative and no
  transfer pending, for any database at all.
\<close>

theorem audit_sound:
  assumes "CheckInvariants c d = Inr au" and "AllHold au"
  shows "total_balance d = total_minted d \<and> ledger_sum d = 0 \<and>
    (\<forall>w \<in> set (wallets d). 0 \<le> w_balance_paise w) \<and> (\<forall>t \<in> set (transfers d). t_status t \<noteq> ''pending'')"
  using assms
  by (auto simp: CheckInvariants_def query_row_def count_status_def Let_def rows_affected_0 not_less
      split: query_outcome.splits if_splits sum.splits)

theorem audit_sound_witness:
  "\<exists>au. CheckInvariants (calm 7 []) sample_db = Inr au \<and> total_balance sample_db = total_minted sample_db"
proof -
  have "total_minted sample_db \<le> int64_max" by (simp add: total_minted_def sample_db_def int64_max_def)
  then obtain au where "CheckInvariants (calm 7 []) sample_db = Inr au" "AllHold au"
    using CheckInvariants_ok [OF sample_store_ok, of "calm 7 []"] by (metis calm_sel(3))
  with audit_sound [of "calm 7 []" sample_db au] show ?thesis by blast
qed

section \<open>Refinement: the transaction moves one amount or nothing\<close>

text \<open>
  C4: Seen as a map of balances, a call of \<open>Transfer\<close> either changes nothing or performs one
  atomic move of exactly the requested amount between the two requested wallets, which differ,
  out of a balance that covers it.
\<close>

theorem transfer_refines_bank:
  assumes "store_ok d"
  shows "case store_Transfer pg env c req d of (res, d', rs) \<Rightarrow>
    balance_of d' = balance_of d \<or>
    (\<exists>f t b. bind_uuid pg (rq_FromWalletID req) = Inr f \<and> bind_uuid pg (rq_ToWalletID req) = Inr t \<and> f \<noteq> t \<and>
       balance_of d f = Some b \<and> 0 < rq_AmountPaise req \<and> rq_AmountPaise req \<le> b \<and>
       balance_of d' = bank_move f t (rq_AmountPaise req) (balance_of d))"
proof (cases "store_Transfer pg env c req d")
  case (fields res d' rs)
  from store_Transfer_db [OF fields store_okD(1) [OF assms]] consider "d' = d"
    | a uid f t okay where "bound_request pg req uid f t" "can_post (terminal_row pg env a req uid f t okay) d"
        "d' = post (terminal_row pg env a req uid f t okay) d" by blast
  then show ?thesis
  proof cases
    case 1
    then show ?thesis using fields by simp
  next
    case 2
    then have ft: "f \<noteq> t" "0 < rq_AmountPaise req"
      using can_post_distinct [OF 2(2)] by (auto simp: can_post_def transfer_check_def split: if_splits)
    show ?thesis
    proof (cases okay)
      case False
      then have "balance_of d' = balance_of d" using 2 ft by (simp add: fun_eq_iff balance_of_post)
      then show ?thesis using fields by simp
    next
      case True
      with 2(2) obtain b c where "balance_of d f = Some b" "balance_of d t = Some c" "rq_AmountPaise req \<le> b"
        by (auto simp: can_post_def)
      moreover then have "balance_of d' = bank_move f t (rq_AmountPaise req) (balance_of d)"
        using 2(3) ft True by (auto simp: fun_eq_iff balance_of_post bank_move_def option.map_ident)
      ultimately show ?thesis using fields 2(1) ft by (auto simp: bound_request_def)
    qed
  qed
qed

theorem transfer_refines_bank_witness:
  "store_ok sample_db \<and>
   (case store_Transfer sample_pg (quiet 9 transfer_1) (calm 9 []) (sample_req 400) sample_db of (res, d', rs) \<Rightarrow>
      balance_of d' wallet_a = Some 600 \<and> balance_of d' wallet_b = Some 400)"
proof -
  note t = sample_success [of 400 "calm 9 []", simplified]
  have "balance_of (post (sample_row 400 True) sample_db) \<noteq> balance_of sample_db"
    by (rule notI, drule fun_cong [of _ _ wallet_a]) (simp add: balance_of_post)
  with transfer_refines_bank [OF sample_store_ok, where pg = sample_pg and env = "quiet 9 transfer_1"
      and c = "calm 9 []" and req = "sample_req 400"] t
  show ?thesis by (auto simp: bank_move_def)
qed

section \<open>Exactly once\<close>

text \<open>
  C3: However many times one request is sent, and however each attempt fails (also when a
  commit's answer is lost), the database is in the end as if it had been processed once or
  not at all: at most one row is posted, so the money moves at most once.
\<close>

theorem retry_storm_applies_once:
  assumes "store_ok d"
  shows "storm pg envs req d = d \<or> (\<exists>r. can_post r d \<and> storm pg envs req d = post r d)"
proof (induction envs)
  case Nil
  then show ?case by (simp add: storm_def)
next
  case (Cons e envs)
  obtain env c where e: "e = (env, c)" by fastforce
  obtain res d' rs where t: "store_Transfer pg env c req d = (res, d', rs)" by (metis prod_cases3)
  have step: "storm pg (e # envs) req d = storm pg envs req d'" using e t by (simp add: storm_def)
  from store_Transfer_db [OF t store_okD(1) [OF assms]] consider "d' = d"
    | a uid f u okay where "bound_request pg req uid f u" "can_post (terminal_row pg env a req uid f u okay) d"
        "d' = post (terminal_row pg env a req uid f u okay) d" by blast
  then show ?case
  proof cases
    case 1
    with Cons step show ?thesis by simp
  next
    case 2
    have "store_ok d'" using assms 2 by (auto intro: post_store_ok)
    moreover have "bind_uuid pg (RequesterUserID req) = Inr uid" using 2 by (simp add: bound_request_def)
    moreover have "(uid, rq_IdempotencyKey req) \<in> set (map idem_key (transfers d'))"
      using 2 by (force simp: post_def)
    ultimately have "storm pg envs req d' = d'" by (rule storm_key_used)
    with 2 step show ?thesis by auto
  qed
qed

theorem retry_storm_applies_once_witness:
  "store_ok sample_db \<and>
   (let d = storm sample_pg (replicate 3 (quiet 9 transfer_1, calm 9 [])) (sample_req 400) sample_db in
      d = sample_db \<or> (\<exists>r. can_post r sample_db \<and> d = post r sample_db))"
  using retry_storm_applies_once [OF sample_store_ok, of sample_pg "replicate 3 (quiet 9 transfer_1, calm 9 [])" "sample_req 400"]
  by (simp add: Let_def)

text \<open>
  C7: After a transfer was answered, and after any further calls by anybody, sending the same
  request again returns the stored outcome as a replay and changes nothing. If the wallets
  were spelled canonically the replayed document is identical to the first answer, also for a
  declined transfer.
\<close>

theorem replay_returns_the_outcome:
  assumes "store_ok d" and "store_Transfer pg env c req d = (Inr tr, d1, rs)" and "\<not> Replay tr"
    and "d2 = store_run pg ops d1"
    and "begin_fault env' 0 = None" and "stmt_fault env' 0 0 = None" and "q_outcome q = QueryOk"
    and "new_uuid env' 0 \<notin> set (transfer_ids d2)"
    and "canonical pg (rq_FromWalletID req)" and "canonical pg (rq_ToWalletID req)"
  shows "store_Transfer pg env' q req d2 = (Inr \<lparr>transfer = transfer tr, Replay = True\<rparr>, d2, [])"
proof -
  from assms(2) store_okD(1) [OF assms(1)] obtain a uid f t okay where r: "bound_request pg req uid f t"
    "can_post (terminal_row pg env a req uid f t okay) d" "d1 = post (terminal_row pg env a req uid f t okay) d"
    "tr = \<lparr>transfer = answered req (terminal_row pg env a req uid f t okay), Replay = False\<rparr>"
    by (cases rule: store_Transfer_ok_cases) (use assms(3) in auto)
  let ?r = "terminal_row pg env a req uid f t okay"
  have ft: "f \<noteq> t" "0 < rq_AmountPaise req"
    using can_post_distinct [OF r(2)] r(2) by (auto simp: can_post_def transfer_check_def split: if_splits)
  have ok1: "store_ok d1" using assms(1) r by (auto intro: post_store_ok)
  have "?r \<in> set (transfers d1)" using r(3) by (simp add: post_def)
  then have in2: "?r \<in> set (transfers d2)" using ok1 assms(4) by (simp add: store_run_transfer)
  have s2: "schema_ok d2" using store_run_ok [OF ok1] assms(4) by auto
  have "rq_FromWalletID req = f" "rq_ToWalletID req = t"
    using r(1) assms(9,10) by (simp_all add: bound_request_def)
  then have "answered req ?r = transfer_of ?r" by (simp add: answered_def transfer_of_def terminal_row_def)
  with store_Transfer_replay [OF assms(5-7) s2 r(1) ft(2,1) assms(8) in2] r(4) show ?thesis by simp
qed

theorem replay_returns_the_outcome_witness:
  "\<exists>tr d1. store_Transfer sample_pg (quiet 9 transfer_1) (calm 9 []) (sample_req 5000) sample_db = (Inr tr, d1, []) \<and>
     Status (transfer tr) = ''declined'' \<and>
     store_Transfer sample_pg (quiet 12 transfer_2) (calm 12 []) (sample_req 5000) d1 =
       (Inr \<lparr>transfer = transfer tr, Replay = True\<rparr>, d1, [])"
proof -
  let ?r = "sample_row 5000 False"
  note t = sample_decline [of 5000 "calm 9 []", simplified]
  have "transfer_ids (post ?r sample_db) = [transfer_1]"
    by (simp add: post_def)
  with replay_returns_the_outcome [OF sample_store_ok t _ refl, where ops = "[]" and env' = "quiet 12 transfer_2"
      and q = "calm 12 []"] t
  show ?thesis
    by (simp add: store_run_def quiet_def) (simp add: answered_def transfer_of_def)
qed

text \<open>
  C14: The same key with a different request is refused with \<open>ErrIdempotencyConflict\<close> and moves
  no money: the stored row carries another fingerprint.
\<close>

theorem key_reuse_conflicts:
  assumes "store_ok d" and "r \<in> set (transfers d)" and "bound_request pg req uid f t"
    and "idem_key r = (uid, rq_IdempotencyKey req)"
    and "t_request_fingerprint r \<noteq> request_fingerprint pg req"
    and "0 < rq_AmountPaise req" and "f \<noteq> t"
    and "begin_fault env 0 = None" and "stmt_fault env 0 0 = None" and "q_outcome q = QueryOk"
    and "new_uuid env 0 \<notin> set (transfer_ids d)"
  shows "store_Transfer pg env q req d = (Inl ErrIdempotencyConflict, d, [])"
  using store_Transfer_replay [OF assms(8-10) store_okD(1) [OF assms(1)] assms(3,6,7,11,2,4)] assms(5) by simp

theorem key_reuse_conflicts_witness:
  "let d = post (sample_row 400 True) sample_db in
     store_ok d \<and>
     store_Transfer sample_pg (quiet 12 transfer_2) (calm 12 []) (sample_req 401) d = (Inl ErrIdempotencyConflict, d, [])"
proof -
  let ?d = "post (sample_row 400 True) sample_db"
  have ok: "store_ok ?d"
    using store_Transfer_store_ok [OF sample_store_ok sample_success [of 400]] by simp
  have "request_fingerprint sample_pg (sample_req 400) \<noteq> request_fingerprint sample_pg (sample_req 401)"
    by (auto simp: request_fingerprint_def Fingerprint_def fingerprint_text_def sample_pg_def dest: show_int_inj)
  then have "store_Transfer sample_pg (quiet 12 transfer_2) (calm 12 []) (sample_req 401) ?d = (Inl ErrIdempotencyConflict, ?d, [])"
    by (intro key_reuse_conflicts [OF ok _ sample_bound, of "sample_row 400 True"])
      (simp_all add: post_def, simp_all add: quiet_def)
  with ok show ?thesis by (simp add: Let_def)
qed

section \<open>The outcome of an undisturbed transfer\<close>

text \<open>
  C12: An undisturbed transfer with a fresh key between two existing wallets, both spelled
  canonically, out of a balance that covers it and into a balance with room for it, succeeds:
  it answers the stored document with status \<open>succeeded\<close>, debits and credits exactly the
  amount, writes the two ledger rows and the transfer row, and leaves all else alone.
\<close>

theorem transfer_success:
  assumes "clear_run env" and "claimable pg env req uid (rq_FromWalletID req) (rq_ToWalletID req) d" and "store_ok d"
    and "balance_of d (rq_FromWalletID req) = Some b" and "balance_of d (rq_ToWalletID req) = Some c"
    and "rq_AmountPaise req \<le> b" and "c + rq_AmountPaise req \<le> int64_max"
  shows "\<exists>r d'. store_Transfer pg env q req d = (Inr \<lparr>transfer = transfer_of r, Replay = False\<rparr>, d', []) \<and>
    t_status r = StatusSucceeded \<and>
    balance_of d' = bank_move (rq_FromWalletID req) (rq_ToWalletID req) (rq_AmountPaise req) (balance_of d) \<and>
    transfers d' = transfers d @ [r] \<and> ledger_entries d' = ledger_entries d @ entries_of r \<and>
    map l_wallet_id (entries_of r) = [rq_FromWalletID req, rq_ToWalletID req] \<and>
    map l_delta_paise (entries_of r) = [- rq_AmountPaise req, rq_AmountPaise req] \<and>
    users d' = users d \<and> mints d' = mints d"
proof -
  let ?f = "rq_FromWalletID req" and ?t = "rq_ToWalletID req"
  let ?r = "terminal_row pg env 0 req uid ?f ?t True"
  note res = store_Transfer_succeeded [OF assms(1,2) store_okD(1) [OF assms(3)] refl assms(4-7), of q]
  have ft: "?f \<noteq> ?t" using assms(2) by (simp add: claimable_def)
  have ans: "answered req ?r = transfer_of ?r" by (simp add: answered_def transfer_of_def)
  have "balance_of (post ?r d) = bank_move ?f ?t (rq_AmountPaise req) (balance_of d)"
    using assms(4,5) ft by (auto simp: fun_eq_iff balance_of_post bank_move_def option.map_ident)
  then show ?thesis
    unfolding res ans
    by (intro exI [of _ ?r] exI [of _ "post ?r d"])
      (auto simp: post_def StatusSucceeded_def entries_of_def ledger_entry_def)
qed

theorem transfer_success_witness:
  "\<exists>d'. store_Transfer sample_pg (quiet 9 transfer_1) (calm 9 []) (sample_req 400) sample_db =
       (Inr \<lparr>transfer = transfer_of (sample_row 400 True), Replay = False\<rparr>, d', []) \<and>
     balance_of d' wallet_a = Some 600 \<and> balance_of d' wallet_b = Some 400"
proof -
  have "answered (sample_req 400) (sample_row 400 True) = transfer_of (sample_row 400 True)"
    by (simp add: answered_def transfer_of_def)
  with transfer_success [of "quiet 9 transfer_1" sample_pg "sample_req 400" alice sample_db 1000 0 "calm 9 []"]
    sample_success [of 400 "calm 9 []"]
  show ?thesis by (auto simp: int64_max_def bank_move_def)
qed

text \<open>
  C13: An undisturbed transfer with a fresh key out of a balance that does not cover it is
  declined: the row is recorded with status \<open>declined\<close> and the reason, no balance and no
  ledger row changes, and the key is consumed.
\<close>

theorem transfer_decline:
  assumes "clear_run env" and "claimable pg env req uid (rq_FromWalletID req) (rq_ToWalletID req) d" and "store_ok d"
    and "balance_of d (rq_FromWalletID req) = Some b" and "b < rq_AmountPaise req"
  shows "\<exists>r d'. store_Transfer pg env q req d = (Inr \<lparr>transfer = transfer_of r, Replay = False\<rparr>, d', []) \<and>
    t_status r = StatusDeclined \<and> t_decline_reason r = Some ReasonInsufficientFunds \<and>
    idem_key r = (uid, rq_IdempotencyKey req) \<and> d' = d\<lparr>transfers := transfers d @ [r]\<rparr>"
proof -
  let ?f = "rq_FromWalletID req" and ?t = "rq_ToWalletID req"
  let ?r = "terminal_row pg env 0 req uid ?f ?t False"
  have "seen_balance req ?f ?t d < rq_AmountPaise req" using assms(4,5) by (simp add: seen_balance_def)
  note res = store_Transfer_declined [OF assms(1,2) store_okD(1) [OF assms(3)] this, of q]
  have ans: "answered req ?r = transfer_of ?r" by (simp add: answered_def transfer_of_def)
  show ?thesis
    unfolding res ans
    by (intro exI [of _ ?r] exI [of _ "post ?r d"])
      (auto simp: post_def StatusDeclined_def entries_of_def, auto simp: terminal_row_def decline_row_def)
qed

theorem transfer_decline_witness:
  "\<exists>r. store_Transfer sample_pg (quiet 9 transfer_1) (calm 9 []) (sample_req 1001) sample_db =
       (Inr \<lparr>transfer = transfer_of r, Replay = False\<rparr>, sample_db\<lparr>transfers := [r]\<rparr>, []) \<and> t_status r = ''declined''"
  using transfer_decline [of "quiet 9 transfer_1" sample_pg "sample_req 1001" alice sample_db 1000 "calm 9 []"]
  by (auto simp: StatusDeclined_def)

text \<open>
  C38: When the credit would leave \<open>bigint\<close>, the server refuses the statement (22003), the
  caller gets that error and the whole transaction is undone: no debit without its credit.
\<close>

theorem transfer_overflow:
  assumes "clear_run env" and "claimable pg env req uid (rq_FromWalletID req) (rq_ToWalletID req) d" and "store_ok d"
    and "balance_of d (rq_FromWalletID req) = Some b" and "balance_of d (rq_ToWalletID req) = Some c"
    and "rq_AmountPaise req \<le> b" and "int64_max < c + rq_AmountPaise req"
  shows "store_Transfer pg env q req d = (Inl (Pg (PgError ''22003'' '''')), d, [])"
  by (rule store_Transfer_overflow [OF assms(1,2) store_okD(1) [OF assms(3)] refl assms(4-7)])

theorem transfer_overflow_witness:
  "store_Transfer sample_pg (quiet 9 transfer_1) (calm 9 []) (sample_req 1) (rich_db) =
     (Inl (Pg (PgError ''22003'' '''')), rich_db, [])"
  by (rule transfer_overflow [where uid = alice and b = 1 and c = int64_max])
    (simp_all add: rich_db_facts)

text \<open>
  C39: The wallet ids of a request are compared as texts after the server has matched them as
  uuids. A request that spells its source wallet in any other accepted way (in upper case, say)
  is declined for insufficient funds whatever the balance, and its key is consumed.
\<close>

theorem noncanonical_source_declined:
  assumes "clear_run env" and "claimable pg env req uid f t d" and "store_ok d"
    and "rq_FromWalletID req \<noteq> f" and "canonical pg t"
  shows "\<exists>r. store_Transfer pg env q req d =
      (Inr \<lparr>transfer = answered req r, Replay = False\<rparr>, d\<lparr>transfers := transfers d @ [r]\<rparr>, []) \<and>
    t_status r = StatusDeclined \<and> t_decline_reason r = Some ReasonInsufficientFunds"
proof -
  let ?r = "terminal_row pg env 0 req uid f t False"
  have "rq_FromWalletID req \<noteq> t"
    using assms(2,5) by (auto simp: claimable_def bound_request_def)
  then have "seen_balance req f t d < rq_AmountPaise req"
    using assms(2,4) by (simp add: seen_balance_def claimable_def)
  from store_Transfer_declined [OF assms(1,2) store_okD(1) [OF assms(3)] this, of q]
  show ?thesis
    by (intro exI [of _ ?r])
      (auto simp: post_def StatusDeclined_def entries_of_def, auto simp: terminal_row_def decline_row_def)
qed

theorem noncanonical_source_declined_witness:
  "\<exists>r. store_Transfer sample_pg (quiet 9 transfer_1) (calm 9 [])
       ((sample_req 1)\<lparr>rq_FromWalletID := ''00000000-0000-0000-0000-00000000000A''\<rparr>) sample_db =
     (Inr \<lparr>transfer = answered ((sample_req 1)\<lparr>rq_FromWalletID := ''00000000-0000-0000-0000-00000000000A''\<rparr>) r,
           Replay = False\<rparr>, sample_db\<lparr>transfers := [r]\<rparr>, []) \<and> t_status r = ''declined'' \<and>
     balance_of sample_db wallet_a = Some 1000"
proof -
  let ?req = "(sample_req 1)\<lparr>rq_FromWalletID := ''00000000-0000-0000-0000-00000000000A''\<rparr>"
  have b: "bind_uuid sample_pg ''00000000-0000-0000-0000-00000000000A'' = Inr wallet_a" by code_simp
  then have "claimable sample_pg (quiet 9 transfer_1) ?req alice wallet_a wallet_b sample_db"
    by (simp add: claimable_def bound_request_def) (simp add: sample_pg_def)
  from noncanonical_source_declined [where q = "calm 9 []", OF _ this sample_store_ok]
  have "\<exists>r. store_Transfer sample_pg (quiet 9 transfer_1) (calm 9 []) ?req sample_db =
      (Inr \<lparr>transfer = answered ?req r, Replay = False\<rparr>, sample_db\<lparr>transfers := [r]\<rparr>, []) \<and> t_status r = ''declined''"
    by (simp add: StatusDeclined_def wallet_a_def) blast
  then show ?thesis by simp
qed

end
