(* ===== verification/Store_Contracts.thy ===== *)
theory Store_Contracts
  imports Samples
begin

text \<open>
  The remaining contracts of the store: get-or-create, mints, reads after writes, error paths,
  the retry loop, the fingerprint, and the limits of the audit.
\<close>

section \<open>Specifications used in the statements\<close>

text \<open>Many calls of get-or-create for one user: the answers, in order, and the final database.\<close>

fun create_all :: "pg \<Rightarrow> callenv list \<Rightarrow> string \<Rightarrow> db \<Rightarrow> (Wallet \<times> bool) list \<times> db" where
  "create_all pg [] userID d = ([], d)"
| "create_all pg (c # cs) userID d =
     (case GetOrCreateWallet pg c userID d of
        (Inl e, d') \<Rightarrow> create_all pg cs userID d'
      | (Inr x, d') \<Rightarrow> (case create_all pg cs userID d' of (xs, d'') \<Rightarrow> (x # xs, d'')))"

text \<open>The attempts from number \<open>k\<close> on, as an environment of their own.\<close>

definition later :: "nat \<Rightarrow> txenv \<Rightarrow> txenv" where
  "later k env =
     \<lparr>begin_fault = (\<lambda>a. begin_fault env (k + a)), stmt_fault = (\<lambda>a. stmt_fault env (k + a)),
      commit_result = (\<lambda>a. commit_result env (k + a)), ctx_done = (\<lambda>a. ctx_done env (k + a)),
      tx_now = (\<lambda>a. tx_now env (k + a)), new_uuid = (\<lambda>a. new_uuid env (k + a))\<rparr>"

section \<open>Lemmas: an attempt does not depend on its number\<close>

lemma later_sel [simp]:
  "begin_fault (later k env) a = begin_fault env (k + a)" "commit_result (later k env) a = commit_result env (k + a)"
  "tx_now (later k env) a = tx_now env (k + a)" "new_uuid (later k env) a = new_uuid env (k + a)"
  by (simp_all add: later_def)

lemma stmt_later: "stmt (later k env) a = stmt env (k + a)"
  by (simp add: fun_eq_iff later_def stmt_def)

lemma lock_wallets_later: "lock_wallets pg (later k env) a = lock_wallets pg env (k + a)"
  unfolding fun_eq_iff lock_wallets_def stmt_later by simp

lemma apply_transfer_later: "apply_transfer pg (later k env) a = apply_transfer pg env (k + a)"
  unfolding fun_eq_iff apply_transfer_def stmt_later by simp

lemma transfer_body_later: "transfer_body pg (later k env) req a v d = transfer_body pg env req (k + a) v d"
  unfolding transfer_body_def lock_wallets_later apply_transfer_later stmt_later by simp

text \<open>The body resets the captured variables: its result does not depend on what an earlier attempt left.\<close>

lemma transfer_body_fresh: "transfer_body pg env req a v d = transfer_body pg env req a fresh_vars d"
  by (simp add: transfer_body_def)

section \<open>Lemmas: mints\<close>

lemma Mint_ok_cases:
  assumes "Mint pg env i k n d = (Inr (w, applied), d', rs)" and "schema_ok d"
  obtains r u where "bind_uuid pg i = Inr u" "find (\<lambda>x. w_id x = u) (wallets d') = Some r" "w = wallet_of r"
    "\<not> applied \<and> d' = d \<or>
     applied \<and> (\<exists>a. can_deposit (mint_row_of env a k u n) d \<and> d' = deposit (mint_row_of env a k u n) d)"
proof -
  from assms(1) obtain err where tx: "inTx env (mint_body pg env i k n) (zero_Wallet, False) d = ((w, applied), err, d', rs)"
    "err = None" by (auto elim: Mint_inTx)
  from tx(1) show ?thesis
  proof (cases rule: inTx_cases)
    case failed
    with tx(2) show ?thesis by simp
  next
    case (committed a v0)
    from mint_body_wallet [OF committed(3)] obtain r where r: "select_wallet pg i d' = Inr (Some r)" "w = wallet_of r"
      by auto
    then obtain u where "bind_uuid pg i = Inr u" "find (\<lambda>x. w_id x = u) (wallets d') = Some r"
      by (auto simp: select_wallet_def split: sum.splits)
    moreover from mint_body_commit [OF committed(3) assms(2)] this(1)
    have "\<not> applied \<and> d' = d \<or>
      applied \<and> (\<exists>a. can_deposit (mint_row_of env a k u n) d \<and> d' = deposit (mint_row_of env a k u n) d)"
      by auto
    ultimately show ?thesis using that r(2) by blast
  qed
qed

section \<open>Get-or-create\<close>

lemma create_all_owned:
  assumes "bind_uuid pg userID = Inr uid" and "owned_by d uid = Some r"
  shows "snd (create_all pg cs userID d) = d \<and> set (fst (create_all pg cs userID d)) \<subseteq> {(wallet_of r, False)}"
proof (induction cs)
  case Nil
  then show ?case by simp
next
  case (Cons c cs)
  obtain x d' where x: "GetOrCreateWallet pg c userID d = (x, d')" by fastforce
  from GetOrCreateWallet_owned(1) [OF assms, of c] x have "d' = d" by simp
  moreover have "y = (wallet_of r, False)" if "x = Inr y" for y
    using GetOrCreateWallet_owned(2) [OF assms, of c y] x that by simp
  ultimately show ?case using Cons x by (auto split: sum.splits prod.splits)
qed

lemma GetOrCreateWallet_outcome:
  assumes "GetOrCreateWallet pg c userID d = (x, d1)"
  obtains (lost) e where "x = Inl e" "d1 = d"
  | (ran) w b where "get_or_create_sql pg userID (q_uuid c) (q_now c) d = Inr ((w, b), d1)" "x = Inr (w, b) \<or> (\<exists>e. x = Inl e)"
  using assms
  by (auto simp: GetOrCreateWallet_def autocommit_def split: query_outcome.splits sum.splits if_splits)

lemma get_or_create_sql_grows:
  "get_or_create_sql pg userID new now d = Inr (x, d') \<Longrightarrow> length (wallets d') \<le> length (wallets d) + 1"
  by (auto simp: get_or_create_sql_def insert_wallet_Inr Let_def split: sum.splits option.splits)

text \<open>
  C20: However many times get-or-create is called for one user, and however the calls fail or
  lose their answers, all the answers name one wallet, at most the first of them says that it
  was created, and a user that had a wallet keeps it: no call creates a second one.
\<close>

theorem get_or_create_is_single:
  "case create_all pg cs userID d of (xs, d') \<Rightarrow>
     (\<forall>x \<in> set xs. \<forall>y \<in> set xs. ID (fst x) = ID (fst y)) \<and> filter snd (tl xs) = [] \<and>
     length (wallets d') \<le> length (wallets d) + 1 \<and>
     (\<forall>uid r. bind_uuid pg userID = Inr uid \<and> owned_by d uid = Some r \<longrightarrow>
        d' = d \<and> set xs \<subseteq> {(wallet_of r, False)})"
proof (induction cs)
  case Nil
  then show ?case by simp
next
  case (Cons c cs)
  obtain x d1 where x: "GetOrCreateWallet pg c userID d = (x, d1)" by fastforce
  obtain xs d2 where xs: "create_all pg cs userID d1 = (xs, d2)" by fastforce
  from x consider (lost) e where "x = Inl e" "d1 = d"
    | (ran) w b where "get_or_create_sql pg userID (q_uuid c) (q_now c) d = Inr ((w, b), d1)" "x = Inr (w, b) \<or> (\<exists>e. x = Inl e)"
    by (rule GetOrCreateWallet_outcome)
  then show ?case
  proof cases
    case lost
    with x have "create_all pg (c # cs) userID d = create_all pg cs userID d" by simp
    with Cons show ?thesis by (simp only:)
  next
    case (ran w b)
    from ran(1) obtain uid r where r: "bind_uuid pg userID = Inr uid" "owned_by d1 uid = Some r" "w = wallet_of r"
      "if b then owned_by d uid = None else d1 = d \<and> owned_by d uid = Some r"
      by (rule get_or_create_sql_cases)
    from create_all_owned [OF r(1,2), of cs] xs have t: "d2 = d1" "\<forall>y \<in> set xs. y = (wallet_of r, False)" by auto
    have no: "filter snd xs = []" using t(2) by (fastforce simp: filter_empty_conv)
    then have "filter snd (tl xs) = []" by (cases xs) (simp_all split: if_splits)
    with no have no: "filter snd xs = []" "filter snd (tl xs) = []" by simp_all
    obtain ys where ys: "create_all pg (c # cs) userID d = (ys, d1)" "ys = (w, b) # xs \<or> ys = xs"
      using x xs ran(2) t(1) by auto
    have one: "fst y = wallet_of r" if "y \<in> set ys" for y using that ys(2) r(3) t(2) by (metis fst_conv set_ConsD)
    have "d1 = d \<and> set ys \<subseteq> {(wallet_of r', False)}" if "bind_uuid pg userID = Inr uid'" "owned_by d uid' = Some r'" for uid' r'
    proof -
      from that r have "\<not> b" "d1 = d" "r' = r" by (auto split: if_splits)
      with ys(2) r(3) t(2) show ?thesis by auto
    qed
    moreover have "filter snd (tl ys) = []" using ys(2) no by auto
    moreover have "length (wallets d1) \<le> length (wallets d) + 1" by (rule get_or_create_sql_grows [OF ran(1)])
    ultimately show ?thesis unfolding ys(1) prod.case using one by metis
  qed
qed

theorem get_or_create_is_single_witness:
  "case create_all sample_pg [calm 1 wallet_b, calm 2 mint_1, calm 3 transfer_1] alice sample_db of (xs, d') \<Rightarrow>
     d' = sample_db \<and> set xs \<subseteq> {(wallet_of (hd (wallets sample_db)), False)} \<and> length xs = 3"
proof -
  have "bind_uuid sample_pg alice = Inr alice" "owned_by sample_db alice = Some (hd (wallets sample_db))"
    by (simp_all add: owned_by_def sample_db_def)
  moreover have "length (fst (create_all sample_pg [calm 1 wallet_b, calm 2 mint_1, calm 3 transfer_1] alice sample_db)) = 3"
    by code_simp
  ultimately show ?thesis
    using get_or_create_is_single [where pg = sample_pg and cs = "[calm 1 wallet_b, calm 2 mint_1, calm 3 transfer_1]"
        and userID = alice and d = sample_db]
    by (auto split: prod.splits)
qed

text \<open>
  A mint that reports success returns the wallet as it now stands. If it was applied, the
  balance grew by exactly the amount and so did the total, no other balance changed; if not,
  nothing changed.
\<close>

theorem mint_effect:
  assumes "store_ok d" and "Mint pg env walletID key n d = (Inr (w, applied), d', rs)"
  shows "bind_uuid pg walletID = Inr (ID w) \<and> balance_of d' (ID w) = Some (BalancePaise w) \<and>
    (if applied
     then balance_of d' = (balance_of d)(ID w \<mapsto> the (balance_of d (ID w)) + n) \<and> 0 < n \<and>
       total_balance d' = total_balance d + n
     else d' = d)"
proof -
  from assms(2) store_okD(1) [OF assms(1)] obtain r u where r: "bind_uuid pg walletID = Inr u"
    "find (\<lambda>x. w_id x = u) (wallets d') = Some r" "w = wallet_of r"
    "\<not> applied \<and> d' = d \<or>
     applied \<and> (\<exists>a. can_deposit (mint_row_of env a key u n) d \<and> d' = deposit (mint_row_of env a key u n) d)"
    by (rule Mint_ok_cases)
  have u: "ID w = u" "balance_of d' u = Some (BalancePaise w)"
    using r(2,3) find_wallet_id [OF r(2)] by (simp_all add: wallet_of_def balance_of_def)
  show ?thesis
  proof (cases applied)
    case False
    with r u show ?thesis by simp
  next
    case True
    with r(4) obtain a where m: "can_deposit (mint_row_of env a key u n) d" "d' = deposit (mint_row_of env a key u n) d"
      by blast
    from m(1) obtain b where b: "balance_of d u = Some b" "0 < n"
      by (auto simp: can_deposit_def mint_row_of_def mint_check_None)
    have "balance_of d' = (balance_of d)(u \<mapsto> b + n)"
      unfolding m(2) using b by (auto simp: fun_eq_iff balance_of_deposit mint_row_of_def option.map_ident)
    with True r u b m total_balance_deposit [OF assms(1) m(1)] show ?thesis by (simp add: mint_row_of_def)
  qed
qed

theorem mint_effect_witness:
  "\<exists>w d' rs. Mint sample_pg (quiet 9 transfer_1) wallet_b ''gift'' 50 sample_db = (Inr (w, True), d', rs) \<and>
     balance_of d' wallet_b = Some 50 \<and> total_balance d' = total_balance sample_db + 50"
proof -
  have "case Mint sample_pg (quiet 9 transfer_1) wallet_b ''gift'' 50 sample_db of
      (Inr (w, ap), d', rs) \<Rightarrow> ap \<and> ID w = wallet_b | _ \<Rightarrow> False" by code_simp
  then obtain w d' rs where m: "Mint sample_pg (quiet 9 transfer_1) wallet_b ''gift'' 50 sample_db = (Inr (w, True), d', rs)"
    "ID w = wallet_b" by (auto split: prod.splits sum.splits)
  from mint_effect [OF sample_store_ok m(1)] m show ?thesis by auto
qed

text \<open>
  C21: Minting is idempotent on its key: once the key is recorded, no call with it, for any
  wallet and any amount and with any failures, changes the database again.
\<close>

theorem mint_key_applies_once:
  assumes "store_ok d" and "key \<in> set (map m_idempotency_key (mints d))"
  shows "case Mint pg env walletID key n (store_run pg ops d) of (res, d', rs) \<Rightarrow> d' = store_run pg ops d"
proof -
  let ?d = "store_run pg ops d"
  have ok: "store_ok ?d" using assms(1) by (rule store_run_ok)
  have "key \<in> set (map m_idempotency_key (mints ?d))"
    using mlog.run_appends [OF assms(1), where pg = pg and ops = ops] assms(2) by (auto simp: store_run_def)
  then have "\<not> can_deposit (mint_row_of env a key u n) ?d" for a u
    by (simp add: can_deposit_def mint_row_of_def)
  then show ?thesis
    using Mint_db [OF _ store_okD(1) [OF ok], of pg env walletID key n] by (auto split: prod.splits)
qed

theorem mint_key_applies_once_witness:
  "''seed'' \<in> set (map m_idempotency_key (mints sample_db)) \<and>
   fst (snd (Mint sample_pg (quiet 9 transfer_1) wallet_b ''seed'' 77 sample_db)) = sample_db"
proof -
  have k: "''seed'' \<in> set (map m_idempotency_key (mints sample_db))" by (simp add: sample_db_def)
  from mint_key_applies_once [OF sample_store_ok k, where pg = sample_pg and env = "quiet 9 transfer_1" and walletID = wallet_b
      and n = 77 and ops = "[]"] k
  show ?thesis by (simp add: store_run_def split: prod.splits)
qed

section \<open>Reads after writes\<close>

lemma stored_transfer_read:
  assumes "schema_ok d" and "r \<in> set (transfers d)" and "canonical pg (t_id r)" and "q_outcome q = QueryOk"
  shows "GetTransfer pg q (t_id r) d = Inr (transfer_of r)"
proof -
  have "distinct (map t_id (transfers d))" using assms(1) by (simp add: schema_simps)
  from find_key_unique [OF this assms(2)] assms(3,4) show ?thesis
    by (simp add: GetTransfer_def query_row_def)
qed

text \<open>
  The id that a transfer was answered with can be read back: after any further calls by
  anybody, \<open>GetTransfer\<close> on it returns the document of the answer, for a first answer and
  for a replay, declined or succeeded.
\<close>

theorem answered_transfer_readable:
  assumes "store_ok d" and "store_Transfer pg env c req d = (Inr tr, d1, rs)"
    and "canonical pg (TID (transfer tr))"
    and "canonical pg (rq_FromWalletID req)" and "canonical pg (rq_ToWalletID req)" and "q_outcome q = QueryOk"
  shows "GetTransfer pg q (TID (transfer tr)) (store_run pg ops d1) = Inr (transfer tr)"
proof -
  have ok1: "store_ok d1" using assms(1,2) by (rule store_Transfer_store_ok)
  from assms(2) store_okD(1) [OF assms(1)] obtain r where r: "r \<in> set (transfers d1)" "transfer tr = transfer_of r"
  proof (cases rule: store_Transfer_ok_cases)
    case (applied a uid f t okay)
    then have "rq_FromWalletID req = f" "rq_ToWalletID req = t"
      using assms(4,5) by (simp_all add: bound_request_def)
    with applied show ?thesis
      by (intro that [of "terminal_row pg env a req uid f t okay"]) (simp_all add: post_def answered_def transfer_of_def)
  next
    case (replay uid r)
    then show ?thesis by (intro that [of r]) simp_all
  qed
  have "r \<in> set (transfers (store_run pg ops d1))" using ok1 r(1) by (rule store_run_transfer)
  with stored_transfer_read [OF store_okD(1) [OF store_run_ok [OF ok1]], of r pg ops pg q] r(2) assms(3,6)
  show ?thesis by (simp add: transfer_of_def)
qed

theorem answered_transfer_readable_witness:
  "\<exists>tr d1. store_Transfer sample_pg (quiet 9 transfer_1) (calm 9 []) (sample_req 400) sample_db = (Inr tr, d1, []) \<and>
     GetTransfer sample_pg (calm 12 []) transfer_1 (store_run sample_pg sample_ops d1) = Inr (transfer tr)"
proof -
  note t = sample_success [of 400 "calm 9 []", simplified]
  have i: "TID (answered (sample_req 400) (sample_row 400 True)) = transfer_1" by (simp add: answered_def transfer_of_def)
  have "canonical sample_pg transfer_1" by code_simp
  with answered_transfer_readable [OF sample_store_ok t, where q = "calm 12 []" and ops = sample_ops] t i
  show ?thesis by simp
qed

section \<open>Errors\<close>

text \<open>
  C24: An error leaves no trace: unless the connection was lost while waiting for the commit,
  a call of \<open>Transfer\<close> that returns an error leaves the database exactly as it was, key included,
  so that the caller may retry with the same key.
\<close>

theorem transfer_error_no_effect:
  assumes "store_Transfer pg env c req d = (Inl e, d', rs)" and "e \<noteq> ErrConn"
  shows "d' = d"
  by (rule store_Transfer_error_db [OF assms])

theorem transfer_error_no_effect_witness:
  "fst (snd (store_Transfer sample_pg (quiet 9 transfer_1) (calm 9 []) (sample_req (-5)) sample_db)) = sample_db"
proof -
  have "case store_Transfer sample_pg (quiet 9 transfer_1) (calm 9 []) (sample_req (-5)) sample_db of
      (Inl e, d', rs) \<Rightarrow> e \<noteq> ErrConn | _ \<Rightarrow> False" by code_simp
  then obtain e d' rs where t: "store_Transfer sample_pg (quiet 9 transfer_1) (calm 9 []) (sample_req (-5)) sample_db = (Inl e, d', rs)"
    "e \<noteq> ErrConn" by (auto split: prod.splits sum.splits)
  from transfer_error_no_effect [OF t] t show ?thesis by simp
qed

text \<open>
  The check for a transfer to oneself compares texts. Two spellings of one wallet pass it
  and reach the server, whose \<open>transfers_no_self\<close> check then fails the call with SQLSTATE 23514
  instead of \<open>ErrSameWallet\<close>; nothing is written.
\<close>

theorem respelled_self_transfer:
  assumes "clear_run env" and "bound_request pg req uid w w" and "rq_FromWalletID req \<noteq> rq_ToWalletID req"
    and "0 < rq_AmountPaise req"
  shows "store_Transfer pg env q req d = (Inl (Pg (PgError ''23514'' ''transfers_no_self'')), d, [])"
proof -
  have "transfer_check (claim_row pg env 0 req uid w w) = Some ''transfers_no_self''"
    using assms(4) by (simp add: transfer_check_def claim_row_def decline_reason_ok_def)
  then have "transfer_body pg env req 0 fresh_vars d = (fresh_vars, Some (Pg (PgError ''23514'' ''transfers_no_self'')), d)"
    by (simp add: transfer_body_def Let_def stmt_clear [OF assms(1)] claim_key_sql_eq [OF assms(2)]
        insert_transfer_def check_violation_def sqlstate_defs)
  with inTx_first_error [of env "transfer_body pg env req" fresh_vars d] assms(1,3) show ?thesis
    by (simp add: store_Transfer_def clear_run_def) (simp add: fresh_vars_def)
qed

theorem respelled_self_transfer_witness:
  "store_Transfer sample_pg (quiet 9 transfer_1) (calm 9 [])
     ((sample_req 1)\<lparr>rq_ToWalletID := ''00000000-0000-0000-0000-00000000000A''\<rparr>) sample_db =
   (Inl (Pg (PgError ''23514'' ''transfers_no_self'')), sample_db, [])"
proof -
  have "bind_uuid sample_pg ''00000000-0000-0000-0000-00000000000A'' = Inr wallet_a" by code_simp
  then have "bound_request sample_pg ((sample_req 1)\<lparr>rq_ToWalletID := ''00000000-0000-0000-0000-00000000000A''\<rparr>) alice wallet_a wallet_a"
    by (simp add: bound_request_def) (simp add: sample_pg_def)
  from respelled_self_transfer [OF _ this] show ?thesis by (simp add: wallet_a_def)
qed

section \<open>Retries\<close>

text \<open>
  C25: A call is retried at most four times and waits for at most 60 milliseconds in all,
  whatever the server does: the loop of \<open>inTx\<close> is bounded in attempts and in time.
\<close>

theorem transfer_bounded_retries:
  "case store_Transfer pg env c req d of (res, d', rs) \<Rightarrow> length rs \<le> 4 \<and> waited rs \<le> 60"
proof -
  obtain v err d1 rs1 where tx: "inTx env (transfer_body pg env req) fresh_vars d = (v, err, d1, rs1)"
    by (metis prod_cases4)
  from inTx_waits [OF tx] tx show ?thesis
    by (auto simp: store_Transfer_def waited_def split: sum.splits option.splits)
qed

text \<open>
  C18: Up to four attempts in a row may be aborted by a deadlock or a serialization failure: if
  the next one is undisturbed, the transfer succeeds, and its outcome is exactly that of a first
  attempt. The abandoned attempts leave nothing behind.
\<close>

theorem transient_aborts_are_retried:
  assumes "k < maxTxAttempts" and "\<forall>b < k. transient_attempt env (transfer_body pg env req) d b"
    and "\<forall>b. 0 < b \<longrightarrow> \<not> ctx_done env b" and "clear_run (later k env)"
    and "claimable pg (later k env) req uid (rq_FromWalletID req) t d" and "store_ok d"
    and "balance_of d (rq_FromWalletID req) = Some b" and "balance_of d t = Some c"
    and "rq_AmountPaise req \<le> b" and "c + rq_AmountPaise req \<le> int64_max"
  shows "\<exists>r rs. store_Transfer pg env q req d = (Inr \<lparr>transfer = answered req r, Replay = False\<rparr>, post r d, rs) \<and>
    t_status r = StatusSucceeded \<and> t_id r = new_uuid env k"
proof -
  let ?f = "rq_FromWalletID req" and ?env = "later k env"
  let ?r = "terminal_row pg ?env 0 req uid ?f t True"
  let ?v = "fresh_vars\<lparr>result := \<lparr>transfer = answered req ?r, Replay = False\<rparr>\<rparr>"
  from apply_transfer_clear(1) [OF assms(4,5) store_okD(1) [OF assms(6)] assms(7-10)] obtain d' where
    a: "apply_transfer pg ?env 0 (new_uuid ?env 0) req (d\<lparr>transfers := transfers d @ [claim_row pg ?env 0 req uid ?f t]\<rparr>) = Inr d'"
    by blast
  have "\<not> seen_balance req ?f t d < rq_AmountPaise req" using assms(7,9) by (simp add: seen_balance_def)
  from transfer_body_clear(2) [OF assms(4,5) store_okD(1) [OF assms(6)] this a]
  have "\<forall>v. transfer_body pg env req k v d = (?v, None, post ?r d)"
    using transfer_body_later [of pg k env req 0] by simp
  with inTx_retry_success [OF assms(1-3), of ?v "post ?r d" fresh_vars] assms(4)
  obtain rs where "inTx env (transfer_body pg env req) fresh_vars d = (?v, None, post ?r d, rs)"
    by (auto simp: clear_run_def)
  then have "store_Transfer pg env q req d = (Inr \<lparr>transfer = answered req ?r, Replay = False\<rparr>, post ?r d, rs)"
    using claimable_distinct_texts [OF assms(5)] by (simp add: store_Transfer_def) (simp add: fresh_vars_def)
  then show ?thesis by (intro exI [of _ ?r] exI [of _ rs]) (simp add: StatusSucceeded_def)
qed

text \<open>Four attempts that lose to a deadlock while locking the wallets, then none.\<close>

definition stormy :: txenv where
  "stormy = (quiet 9 transfer_1)\<lparr>stmt_fault := (\<lambda>a j. if a < 4 \<and> j = 2 then Some Deadlock else None)\<rparr>"

lemma stormy_attempt:
  assumes "b < 4"
  shows "transient_attempt stormy (transfer_body sample_pg stormy (sample_req 400)) sample_db b"
proof -
  have run: "case transfer_body sample_pg stormy (sample_req 400) b fresh_vars sample_db of
      (v, Some e, w) \<Rightarrow> isTransient e | _ \<Rightarrow> False" if "b \<in> set [0, 1, 2, 3]"
  proof -
    have "list_all (\<lambda>b. case transfer_body sample_pg stormy (sample_req 400) b fresh_vars sample_db of
      (v, Some e, w) \<Rightarrow> isTransient e | _ \<Rightarrow> False) [0, 1, 2, 3]" by code_simp
    with that show ?thesis by (simp add: list_all_iff) (metis less_Suc_eq)
  qed
  have "b \<in> set [0, 1, 2, 3]" using assms by (simp add: numeral_eq_Suc less_Suc_eq)
  from run [OF this] have "\<exists>v' e w. transfer_body sample_pg stormy (sample_req 400) b fresh_vars sample_db = (v', Some e, w) \<and> isTransient e"
    by (auto split: prod.splits option.splits)
  then have "\<forall>v. \<exists>v' e w. transfer_body sample_pg stormy (sample_req 400) b v sample_db = (v', Some e, w) \<and> isTransient e"
    by (metis transfer_body_fresh)
  moreover have "begin_fault stormy b = None" by (simp add: stormy_def quiet_def)
  ultimately show ?thesis by (simp add: transient_attempt_def)
qed

theorem transient_aborts_are_retried_witness:
  "\<exists>r rs. store_Transfer sample_pg stormy (calm 9 []) (sample_req 400) sample_db =
     (Inr \<lparr>transfer = answered (sample_req 400) r, Replay = False\<rparr>, post r sample_db, rs) \<and> t_status r = ''succeeded''"
proof -
  have c: "clear_run (later 4 stormy)" by (simp add: clear_run_def later_def stormy_def quiet_def)
  have "claimable sample_pg (later 4 stormy) (sample_req 400) alice wallet_a wallet_b sample_db"
    using sample_claimable [of 400 9] by (simp add: claimable_def stormy_def)
  moreover have "\<forall>b. 0 < b \<longrightarrow> \<not> ctx_done stormy b" by (simp add: stormy_def quiet_def)
  ultimately show ?thesis
    using transient_aborts_are_retried [where k = 4 and env = stormy and pg = sample_pg and req = "sample_req 400"
        and d = sample_db and uid = alice and t = wallet_b and b = 1000 and c = 0 and q = "calm 9 []"] c
    by (auto simp: stormy_attempt maxTxAttempts_def int64_max_def StatusSucceeded_def)
qed

section \<open>The fingerprint\<close>

text \<open>
  Two requests over wallet texts without the separator have the same fingerprint only if
  they agree in all three fields, or else they exhibit a collision of SHA-256. A key reused for
  another request is therefore detected.
\<close>

theorem fingerprint_binds_request:
  assumes "Fingerprint pg f t n = Fingerprint pg f' t' n'"
    and "CHR ''|'' \<notin> set f" and "CHR ''|'' \<notin> set f'" and "CHR ''|'' \<notin> set t" and "CHR ''|'' \<notin> set t'"
  shows "f = f' \<and> t = t' \<and> n = n' \<or>
    fingerprint_text f t n \<noteq> fingerprint_text f' t' n' \<and>
    sha256 pg (fingerprint_text f t n) = sha256 pg (fingerprint_text f' t' n')"
  using assms fingerprint_text_inj [of f t n f' t' n'] by (auto simp: Fingerprint_def)

theorem fingerprint_binds_request_witness:
  "CHR ''|'' \<notin> set wallet_a \<and> CHR ''|'' \<notin> set wallet_b \<and>
   (Fingerprint sample_pg wallet_a wallet_b 400 \<noteq> Fingerprint sample_pg wallet_a wallet_b 401)"
proof -
  have no: "CHR ''|'' \<notin> set wallet_a" "CHR ''|'' \<notin> set wallet_b" by (simp_all add: wallet_a_def wallet_b_def)
  have "Fingerprint sample_pg wallet_a wallet_b 400 \<noteq> Fingerprint sample_pg wallet_a wallet_b 401"
  proof
    assume "Fingerprint sample_pg wallet_a wallet_b 400 = Fingerprint sample_pg wallet_a wallet_b 401"
    from fingerprint_binds_request [OF this no(1,1) no(2,2)] show False by (simp add: sample_pg_def)
  qed
  with no show ?thesis by simp
qed

section \<open>The limits of the audit\<close>

text \<open>
  The sums of the audit are exact on the server but are scanned into \<open>int64\<close>: once more
  than the largest \<open>int64\<close> has been minted in total, \<open>CheckInvariants\<close> fails although every
  invariant holds.
\<close>

theorem audit_overflow:
  assumes "store_ok d" and "q_outcome c = QueryOk" and "int64_max < total_minted d"
  shows "CheckInvariants c d = Inl ErrScan \<and> total_balance d = total_minted d \<and> ledger_sum d = 0"
  using assms total_balance_eq [OF assms(1)] ledger_sum_zero [OF store_okD(2) [OF assms(1)]]
  by (simp add: CheckInvariants_def query_row_def in_int64_def)

theorem audit_overflow_witness:
  "CheckInvariants (calm 9 []) rich_db = Inl ErrScan \<and> total_balance rich_db = total_minted rich_db"
  using audit_overflow [OF rich_store_ok, of "calm 9 []"]
  by (simp add: total_minted_def) (simp add: rich_db_def int64_max_def)

end
