(* ===== verification/Sessions.thy ===== *)
theory Sessions
  imports Samples
begin

text \<open>
  Concurrent transfers: many sessions run the transaction of \<open>Transfer\<close> statement by statement
  against one committed database. A statement sees what is committed when it runs; row locks
  follow the conflict table of the Postgres manual; an \<open>INSERT\<close> waits for an uncommitted row
  with the same key; a session's new row versions are computed when its \<open>UPDATE\<close> runs and are
  published when it commits. Other calls of the store commit in between; a mint only while no
  session holds the row that it credits.

  The interface \<open>ranked_locks\<close> states when waiting in the order of a rank cannot deadlock.
\<close>

section \<open>Interface: resources acquired in the order of a rank\<close>

locale ranked_locks =
  fixes ok :: "'st \<Rightarrow> bool" and agents :: "'st \<Rightarrow> 'a set" and wants :: "'st \<Rightarrow> 'a \<Rightarrow> 'r option"
    and holds :: "'st \<Rightarrow> 'a \<Rightarrow> 'r set" and rank :: "'r \<Rightarrow> 'k :: linorder"
  assumes finite_agents: "ok s \<Longrightarrow> finite (agents s)"
    and ascending: "ok s \<Longrightarrow> a \<in> agents s \<Longrightarrow> wants s a = Some r \<Longrightarrow> r' \<in> holds s a \<Longrightarrow> rank r' < rank r"
begin

text \<open>Among any waiting agents there is one that none of them blocks.\<close>

lemma some_unblocked:
  assumes "ok s" and "X \<subseteq> agents s" and "X \<noteq> {}"
  shows "\<exists>a \<in> X. \<forall>b \<in> X. \<forall>r. wants s a = Some r \<longrightarrow> r \<notin> holds s b"
proof (rule ccontr)
  assume "\<not> ?thesis"
  then have all: "\<forall>a \<in> X. \<exists>b \<in> X. \<exists>r. wants s a = Some r \<and> r \<in> holds s b" by blast
  define f where "f a = rank (the (wants s a))" for a
  have fin: "finite (f ` X)" using finite_subset [OF assms(2) finite_agents [OF assms(1)]] by simp
  then have "Max (f ` X) \<in> f ` X" using assms(3) by (intro Max_in) auto
  then obtain a where a: "a \<in> X" "f a = Max (f ` X)" by force
  from all a(1) obtain b r where b: "b \<in> X" "wants s a = Some r" "r \<in> holds s b" by blast
  from all b(1) obtain r' where r': "wants s b = Some r'" by blast
  have "rank r < rank r'" using ascending [OF assms(1) _ r' b(3)] b(1) assms(2) by blast
  then have "f a < f b" using b(2) r' by (simp add: f_def)
  moreover have "f b \<le> Max (f ` X)" using fin b(1) by simp
  ultimately show False using a(2) by simp
qed

end

section \<open>Row locks\<close>

datatype lock_mode = ForKeyShare | ForShare | ForNoKeyUpdate | ForUpdate

text \<open>The conflicts of the four row-level lock modes.\<close>

fun mode_conflicts :: "lock_mode \<Rightarrow> lock_mode \<Rightarrow> bool" where
  "mode_conflicts ForUpdate _ = True"
| "mode_conflicts _ ForUpdate = True"
| "mode_conflicts ForNoKeyUpdate ForNoKeyUpdate = True"
| "mode_conflicts ForNoKeyUpdate ForShare = True"
| "mode_conflicts ForShare ForNoKeyUpdate = True"
| "mode_conflicts _ _ = False"

text \<open>The strength that the program's \<open>SELECT\<close>s ask for.\<close>

definition select_mode :: lock_mode where
  "select_mode = ForNoKeyUpdate"

section \<open>Sessions\<close>

text \<open>The next statement of a session: the insert, the two locking reads, the decision, the commit.\<close>

datatype phase = Claim | LockLo | LockHi | Decide | Commit bool | Finished

record session =
  s_req :: TransferRequest
  s_new :: uuid
  s_now :: time
  s_phase :: phase
  s_seen :: "string \<rightharpoonup> paise"
  s_writes :: "uuid \<rightharpoonup> wallet_row"

record system =
  cdb :: db
  sessions :: "session list"

text \<open>The ids of a request as the server reads them.\<close>

definition bid :: "pg \<Rightarrow> string \<Rightarrow> uuid" where
  "bid pg x = (case bind_uuid pg x of Inr u \<Rightarrow> u | Inl _ \<Rightarrow> [])"

definition s_uid :: "pg \<Rightarrow> session \<Rightarrow> uuid" where
  "s_uid pg s = bid pg (RequesterUserID (s_req s))"

definition s_from :: "pg \<Rightarrow> session \<Rightarrow> uuid" where
  "s_from pg s = bid pg (rq_FromWalletID (s_req s))"

definition s_to :: "pg \<Rightarrow> session \<Rightarrow> uuid" where
  "s_to pg s = bid pg (rq_ToWalletID (s_req s))"

definition s_key :: "pg \<Rightarrow> session \<Rightarrow> uuid \<times> string" where
  "s_key pg s = (s_uid pg s, rq_IdempotencyKey (s_req s))"

definition lo_text :: "session \<Rightarrow> string" where
  "lo_text s = fst (lock_order (rq_FromWalletID (s_req s)) (rq_ToWalletID (s_req s)))"

definition hi_text :: "session \<Rightarrow> string" where
  "hi_text s = snd (lock_order (rq_FromWalletID (s_req s)) (rq_ToWalletID (s_req s)))"

fun claimed_phase :: "phase \<Rightarrow> bool" where
  "claimed_phase Claim = False"
| "claimed_phase Finished = False"
| "claimed_phase _ = True"

definition claimed :: "session \<Rightarrow> bool" where
  "claimed s \<longleftrightarrow> claimed_phase (s_phase s)"

definition active :: "session \<Rightarrow> bool" where
  "active s \<longleftrightarrow> s_phase s \<noteq> Finished"

text \<open>The wallet rows that a session has locked by its \<open>SELECT\<close>s.\<close>

definition rows_locked :: "pg \<Rightarrow> session \<Rightarrow> uuid list" where
  "rows_locked pg s =
     (case s_phase s of
        LockHi \<Rightarrow> [bid pg (lo_text s)]
      | Decide \<Rightarrow> [bid pg (lo_text s), bid pg (hi_text s)]
      | Commit _ \<Rightarrow> [bid pg (lo_text s), bid pg (hi_text s)]
      | _ \<Rightarrow> [])"

text \<open>
  All row locks of a session: the insert takes \<open>FOR KEY SHARE\<close> on both wallets for its foreign
  keys, the \<open>SELECT\<close>s take \<open>mode\<close>.
\<close>

definition held :: "pg \<Rightarrow> lock_mode \<Rightarrow> session \<Rightarrow> (uuid \<times> lock_mode) list" where
  "held pg mode s =
     (if claimed s then [(s_from pg s, ForKeyShare), (s_to pg s, ForKeyShare)] else []) @
     map (\<lambda>x. (x, mode)) (rows_locked pg s)"

definition wanted :: "pg \<Rightarrow> lock_mode \<Rightarrow> session \<Rightarrow> (uuid \<times> lock_mode) list" where
  "wanted pg mode s =
     (case s_phase s of
        Claim \<Rightarrow> [(s_from pg s, ForKeyShare), (s_to pg s, ForKeyShare)]
      | LockLo \<Rightarrow> [(bid pg (lo_text s), mode)]
      | LockHi \<Rightarrow> [(bid pg (hi_text s), mode)]
      | _ \<Rightarrow> [])"

text \<open>Whether the next statement of \<open>s\<close> has to wait for the session \<open>s'\<close>.\<close>

definition waits_for :: "pg \<Rightarrow> lock_mode \<Rightarrow> session \<Rightarrow> session \<Rightarrow> bool" where
  "waits_for pg mode s s' \<longleftrightarrow>
     (s_phase s = Claim \<and> claimed s' \<and> s_key pg s' = s_key pg s) \<or>
     list_ex (\<lambda>(x, m). list_ex (\<lambda>(y, m'). x = y \<and> mode_conflicts m m') (held pg mode s')) (wanted pg mode s)"

definition blocked :: "pg \<Rightarrow> lock_mode \<Rightarrow> nat \<Rightarrow> system \<Rightarrow> bool" where
  "blocked pg mode i S \<longleftrightarrow>
     list_ex (\<lambda>j. j \<noteq> i \<and> waits_for pg mode (sessions S ! i) (sessions S ! j)) [0..<length (sessions S)]"

section \<open>Steps\<close>

definition s_env :: "session \<Rightarrow> txenv" where
  "s_env s = quiet (s_now s) (s_new s)"

text \<open>The row that a session commits.\<close>

definition s_row :: "pg \<Rightarrow> session \<Rightarrow> bool \<Rightarrow> transfer_row" where
  "s_row pg s okay = terminal_row pg (s_env s) 0 (s_req s) (s_uid pg s) (s_from pg s) (s_to pg s) okay"

text \<open>The row versions that the batch of the second step produces from the rows it finds.\<close>

definition new_versions :: "pg \<Rightarrow> session \<Rightarrow> db \<Rightarrow> (uuid \<rightharpoonup> wallet_row) option" where
  "new_versions pg s d =
     (case debit_sql pg (rq_AmountPaise (s_req s)) (rq_FromWalletID (s_req s)) (s_now s) d of
        Inl _ \<Rightarrow> None
      | Inr (n1, d1) \<Rightarrow>
          if n1 \<noteq> 1 then None else
          (case credit_sql pg (rq_AmountPaise (s_req s)) (rq_ToWalletID (s_req s)) (s_now s) d1 of
             Inl _ \<Rightarrow> None
           | Inr (n2, d2) \<Rightarrow>
               if n2 \<noteq> 1 then None
               else Some (\<lambda>x. if x = s_from pg s \<or> x = s_to pg s
                              then find (\<lambda>w. w_id w = x) (wallets d2) else None)))"

text \<open>The commit replaces the rows that the session wrote by its versions and adds its own rows.\<close>

definition publish :: "pg \<Rightarrow> session \<Rightarrow> bool \<Rightarrow> db \<Rightarrow> db" where
  "publish pg s okay d =
     d\<lparr>wallets := map (\<lambda>w. case s_writes s (w_id w) of Some v \<Rightarrow> v | None \<Rightarrow> w) (wallets d),
       transfers := transfers d @ [s_row pg s okay],
       ledger_entries := ledger_entries d @ entries_of (s_row pg s okay)\<rparr>"

text \<open>The effect of the next statement of a session that need not wait: the session and the committed database.\<close>

definition session_stmt :: "pg \<Rightarrow> session \<Rightarrow> db \<Rightarrow> session \<times> db" where
  "session_stmt pg s d =
     (let fail = (s\<lparr>s_phase := Finished\<rparr>, d); req = s_req s in
      case s_phase s of
        Claim \<Rightarrow>
          (case claim_key_sql pg req (request_fingerprint pg req) (s_new s) (s_now s) d of
             Inl _ \<Rightarrow> fail
           | Inr _ \<Rightarrow> (s\<lparr>s_phase := LockLo\<rparr>, d))
      | LockLo \<Rightarrow>
          (case select_wallet pg (lo_text s) d of
             Inr (Some w) \<Rightarrow> (s\<lparr>s_seen := [w_id w \<mapsto> w_balance_paise w], s_phase := LockHi\<rparr>, d)
           | _ \<Rightarrow> fail)
      | LockHi \<Rightarrow>
          (case select_wallet pg (hi_text s) d of
             Inr (Some w) \<Rightarrow> (s\<lparr>s_seen := (s_seen s)(w_id w \<mapsto> w_balance_paise w), s_phase := Decide\<rparr>, d)
           | _ \<Rightarrow> fail)
      | Decide \<Rightarrow>
          (if map_read (s_seen s) (rq_FromWalletID req) < rq_AmountPaise req
           then (s\<lparr>s_writes := Map.empty, s_phase := Commit False\<rparr>, d)
           else case new_versions pg s d of
                  None \<Rightarrow> fail
                | Some vs \<Rightarrow> (s\<lparr>s_writes := vs, s_phase := Commit True\<rparr>, d))
      | Commit okay \<Rightarrow> (s\<lparr>s_phase := Finished\<rparr>, publish pg s okay d)
      | Finished \<Rightarrow> (s, d))"

datatype sys_event =
    Arrive TransferRequest uuid time
  | Step nat
  | Abort nat "(uuid \<times> time) option"
  | Other store_op

definition fresh_id :: "uuid \<Rightarrow> system \<Rightarrow> bool" where
  "fresh_id u S \<longleftrightarrow> u \<notin> set (transfer_ids (cdb S)) \<and> u \<notin> s_new ` set (sessions S)"

text \<open>A committed call of another operation; a mint needs the lock of the row that it credits.\<close>

definition other_allowed :: "pg \<Rightarrow> lock_mode \<Rightarrow> store_op \<Rightarrow> system \<Rightarrow> bool" where
  "other_allowed pg mode op S \<longleftrightarrow>
     (case op of
        OpTransfer _ _ _ \<Rightarrow> False
      | OpMint _ walletID _ _ \<Rightarrow>
          list_all (\<lambda>s. list_all (\<lambda>(x, m). x = bid pg walletID \<longrightarrow> \<not> mode_conflicts ForNoKeyUpdate m) (held pg mode s))
            (sessions S)
      | _ \<Rightarrow> True)"

fun sys_exec :: "pg \<Rightarrow> lock_mode \<Rightarrow> sys_event \<Rightarrow> system \<Rightarrow> system option" where
  "sys_exec pg mode (Arrive req u now) S =
     (if fresh_id u S
      then Some (S\<lparr>sessions := sessions S @
             [\<lparr>s_req = req, s_new = u, s_now = now, s_phase = Claim, s_seen = Map.empty, s_writes = Map.empty\<rparr>]\<rparr>)
      else None)"
| "sys_exec pg mode (Step i) S =
     (if i < length (sessions S) \<and> active (sessions S ! i) \<and> \<not> blocked pg mode i S
      then (case session_stmt pg (sessions S ! i) (cdb S) of
              (s', d') \<Rightarrow> Some (S\<lparr>cdb := d', sessions := (sessions S)[i := s']\<rparr>))
      else None)"
| "sys_exec pg mode (Abort i again) S =
     (if i < length (sessions S) \<and> active (sessions S ! i) then
        (case again of
           None \<Rightarrow> Some (S\<lparr>sessions := (sessions S)[i := (sessions S ! i)\<lparr>s_phase := Finished\<rparr>]\<rparr>)
         | Some (u, now) \<Rightarrow>
             if fresh_id u S
             then Some (S\<lparr>sessions := (sessions S)[i := (sessions S ! i)\<lparr>s_new := u, s_now := now, s_phase := Claim\<rparr>]\<rparr>)
             else None)
      else None)"
| "sys_exec pg mode (Other op) S =
     (if other_allowed pg mode op S then Some (S\<lparr>cdb := store_step pg op (cdb S)\<rparr>) else None)"

fun sys_run :: "pg \<Rightarrow> lock_mode \<Rightarrow> sys_event list \<Rightarrow> system \<Rightarrow> system option" where
  "sys_run pg mode [] S = Some S"
| "sys_run pg mode (e # es) S =
     (case sys_exec pg mode e S of None \<Rightarrow> None | Some S' \<Rightarrow> sys_run pg mode es S')"

definition start :: "db \<Rightarrow> system" where
  "start d = \<lparr>cdb = d, sessions = []\<rparr>"

inductive reachable :: "pg \<Rightarrow> lock_mode \<Rightarrow> db \<Rightarrow> system \<Rightarrow> bool" for pg mode d0 where
  initial: "reachable pg mode d0 (start d0)"
| event: "reachable pg mode d0 S \<Longrightarrow> sys_exec pg mode e S = Some S' \<Longrightarrow> reachable pg mode d0 S'"

section \<open>Lemmas: what a session has seen stays true\<close>

abbreviation s_ready :: "pg \<Rightarrow> session \<Rightarrow> db \<Rightarrow> bool" where
  "s_ready pg s d \<equiv> claimable pg (s_env s) (s_req s) (s_uid pg s) (s_from pg s) (s_to pg s) d"

lemma s_env_sel [simp]: "tx_now (s_env s) a = s_now s" "new_uuid (s_env s) a = s_new s" "clear_run (s_env s)"
  by (simp_all add: s_env_def)

lemma s_row_sel [simp]:
  "t_id (s_row pg s k) = s_new s" "idem_key (s_row pg s k) = s_key pg s"
  "t_from_wallet_id (s_row pg s k) = s_from pg s" "t_to_wallet_id (s_row pg s k) = s_to pg s"
  "t_amount_paise (s_row pg s k) = rq_AmountPaise (s_req s)"
  "t_status (s_row pg s k) = (if k then ''succeeded'' else ''declined'')"
  "t_created_at (s_row pg s k) = s_now s"
  by (simp_all add: s_row_def s_key_def) (simp add: terminal_row_def)

lemma ready_facts:
  assumes "s_ready pg s d"
  shows "bind_uuid pg (rq_FromWalletID (s_req s)) = Inr (s_from pg s)"
    "bind_uuid pg (rq_ToWalletID (s_req s)) = Inr (s_to pg s)" "0 < rq_AmountPaise (s_req s)"
    "s_from pg s \<noteq> s_to pg s" "s_from pg s \<in> set (wallet_ids d)" "s_to pg s \<in> set (wallet_ids d)"
  using assms by (simp_all add: claimable_def bound_request_def)

lemma lo_hi_ids:
  "(bid pg (lo_text s) = s_from pg s \<and> bid pg (hi_text s) = s_to pg s) \<or>
   (bid pg (lo_text s) = s_to pg s \<and> bid pg (hi_text s) = s_from pg s)"
  by (simp add: lo_text_def hi_text_def lock_order_def s_from_def s_to_def)

text \<open>The rows of both wallets as the succeeded transfer leaves them.\<close>

definition moved_rows :: "pg \<Rightarrow> session \<Rightarrow> db \<Rightarrow> (uuid \<rightharpoonup> wallet_row)" where
  "moved_rows pg s d =
     (\<lambda>x. if x = s_from pg s \<or> x = s_to pg s
          then find (\<lambda>w. w_id w = x) (move (s_row pg s True) (wallets d)) else None)"

definition funded :: "pg \<Rightarrow> session \<Rightarrow> db \<Rightarrow> bool" where
  "funded pg s d \<longleftrightarrow>
     (\<exists>b c. balance_of d (s_from pg s) = Some b \<and> balance_of d (s_to pg s) = Some c \<and>
        rq_AmountPaise (s_req s) \<le> b \<and> c + rq_AmountPaise (s_req s) \<le> int64_max)"

lemma new_versions_iff:
  assumes "schema_ok d" and "s_ready pg s d"
  shows "new_versions pg s d = Some vs \<longleftrightarrow> funded pg s d \<and> vs = moved_rows pg s d"
proof -
  let ?n = "rq_AmountPaise (s_req s)" and ?f = "s_from pg s" and ?t = "s_to pg s"
  let ?d1 = "d\<lparr>wallets := credit ?f (- ?n) (s_now s) (wallets d)\<rparr>"
  let ?d2 = "?d1\<lparr>wallets := credit ?t ?n (s_now s) (wallets ?d1)\<rparr>"
  note r = ready_facts [OF assms(2)]
  have mv: "wallets ?d2 = move (s_row pg s True) (wallets d)" by (simp add: move_def)
  have "balance_of d ?t \<noteq> None" using r(6) by (simp only: balance_of_in_ids)
  then obtain c where c: "balance_of d ?t = Some c" by blast
  have c1: "balance_of ?d1 ?t = Some c" using c r(4) by (simp add: balance_of_credit)
  show ?thesis
  proof
    assume l: "funded pg s d \<and> vs = moved_rows pg s d"
    then obtain b where b: "balance_of d ?f = Some b" "?n \<le> b" "c + ?n \<le> int64_max" using c by (auto simp: funded_def)
    from debit_sql_clear [OF assms(1) r(1) b(1) r(3) b(2)]
    have 1: "debit_sql pg ?n (rq_FromWalletID (s_req s)) (s_now s) d = Inr (1, ?d1)" .
    have "schema_ok ?d1"
      using assms(1) b r(3) balance_of_bounds [OF assms(1) b(1)] by (intro credit_schema) auto
    from credit_sql_clear [OF this r(2) c1 r(3) b(3)]
    have 2: "credit_sql pg ?n (rq_ToWalletID (s_req s)) (s_now s) ?d1 = Inr (1, ?d2)" .
    from 1 2 l mv show "new_versions pg s d = Some vs" by (simp add: new_versions_def moved_rows_def cong: if_cong)
  next
    assume "new_versions pg s d = Some vs"
    then obtain d1 d2 where 1: "debit_sql pg ?n (rq_FromWalletID (s_req s)) (s_now s) d = Inr (1, d1)"
      and 2: "credit_sql pg ?n (rq_ToWalletID (s_req s)) (s_now s) d1 = Inr (1, d2)"
      and vs: "vs = (\<lambda>x. if x = ?f \<or> x = ?t then find (\<lambda>w. w_id w = x) (wallets d2) else None)"
      by (auto simp: new_versions_def split: sum.splits if_splits)
    from debit_sql_Inr [OF 1 refl r(1) assms(1)] obtain b where b: "balance_of d ?f = Some b" "?n \<le> b" and d1: "d1 = ?d1"
      by auto
    from credit_sql_Inr [OF 2 r(2)] d1 c1 have "c + ?n \<le> int64_max" and d2: "d2 = ?d2" by auto
    with b c have "funded pg s d" by (simp add: funded_def)
    then show "funded pg s d \<and> vs = moved_rows pg s d"
      unfolding vs d2 mv by (simp add: moved_rows_def)
  qed
qed

text \<open>Rows that did not change.\<close>

definition same_row :: "db \<Rightarrow> db \<Rightarrow> uuid \<Rightarrow> bool" where
  "same_row d d' x \<longleftrightarrow> find (\<lambda>w. w_id w = x) (wallets d') = find (\<lambda>w. w_id w = x) (wallets d)"

lemma same_row_balance: "same_row d d' x \<Longrightarrow> balance_of d' x = balance_of d x"
  by (simp add: same_row_def balance_of_def)

lemma same_row_moved:
  "same_row d d' (s_from pg s) \<Longrightarrow> same_row d d' (s_to pg s) \<Longrightarrow> moved_rows pg s d' = moved_rows pg s d"
  by (auto simp: fun_eq_iff moved_rows_def move_def find_credit same_row_def)

lemma same_row_funded:
  "same_row d d' (s_from pg s) \<Longrightarrow> same_row d d' (s_to pg s) \<Longrightarrow> funded pg s d' = funded pg s d"
  by (simp add: funded_def same_row_balance)

lemma same_row_post:
  "x \<notin> {t_from_wallet_id r, t_to_wallet_id r} \<or> t_status r \<noteq> ''succeeded'' \<Longrightarrow> same_row d (post r d) x"
  by (auto simp: same_row_def post_def move_def find_credit option.map_comp comp_def
      dest: find_wallet_id intro!: option.map_ident_strong dest!: in_set_conv_decomp [THEN iffD1])

section \<open>The invariant of the sessions\<close>

definition seen_both :: "pg \<Rightarrow> session \<Rightarrow> db \<Rightarrow> (string \<rightharpoonup> paise)" where
  "seen_both pg s d =
     [bid pg (lo_text s) \<mapsto> the (balance_of d (bid pg (lo_text s))),
      bid pg (hi_text s) \<mapsto> the (balance_of d (bid pg (hi_text s)))]"

definition s_short :: "pg \<Rightarrow> session \<Rightarrow> db \<Rightarrow> bool" where
  "s_short pg s d \<longleftrightarrow>
     seen_balance (s_req s) (s_from pg s) (s_to pg s) d < rq_AmountPaise (s_req s)"

text \<open>
  A session in the middle of its transaction: its insert is still possible, the balances it has
  read and the row versions it has computed are those of the committed database.
\<close>

definition sess_ok :: "pg \<Rightarrow> db \<Rightarrow> session \<Rightarrow> bool" where
  "sess_ok pg d s \<longleftrightarrow>
     (active s \<longrightarrow> s_new s \<notin> set (transfer_ids d)) \<and> (claimed s \<longrightarrow> s_ready pg s d) \<and>
     (case s_phase s of
        LockHi \<Rightarrow> s_seen s = [bid pg (lo_text s) \<mapsto> the (balance_of d (bid pg (lo_text s)))]
      | Decide \<Rightarrow> s_seen s = seen_both pg s d
      | Commit okay \<Rightarrow>
          (if okay then \<not> s_short pg s d \<and> funded pg s d \<and> s_writes s = moved_rows pg s d
           else s_short pg s d \<and> s_writes s = Map.empty)
      | _ \<Rightarrow> True)"

text \<open>Two sessions: different ids, different keys once claimed, and no row locked by both.\<close>

definition compat :: "pg \<Rightarrow> session \<Rightarrow> session \<Rightarrow> bool" where
  "compat pg s s' \<longleftrightarrow>
     (active s \<and> active s' \<longrightarrow> s_new s \<noteq> s_new s') \<and>
     (claimed s \<and> claimed s' \<longrightarrow> s_key pg s \<noteq> s_key pg s') \<and>
     set (rows_locked pg s) \<inter> set (rows_locked pg s') = {}"

definition sys_ok :: "pg \<Rightarrow> system \<Rightarrow> bool" where
  "sys_ok pg S \<longleftrightarrow>
     store_ok (cdb S) \<and> (\<forall>s \<in> set (sessions S). sess_ok pg (cdb S) s) \<and>
     (\<forall>i < length (sessions S). \<forall>j < length (sessions S). i \<noteq> j \<longrightarrow> compat pg (sessions S ! i) (sessions S ! j))"

lemma claimed_active: "claimed s \<Longrightarrow> active s"
  by (cases "s_phase s") (simp_all add: claimed_def active_def)

lemma compat_sym: "compat pg s s' \<Longrightarrow> compat pg s' s"
  by (auto simp: compat_def)

lemma rows_locked_claimed: "x \<in> set (rows_locked pg s) \<Longrightarrow> claimed s \<and> (x = s_from pg s \<or> x = s_to pg s)"
  using lo_hi_ids [of pg s] by (cases "s_phase s") (auto simp: rows_locked_def claimed_def)

lemma rows_locked_commit: "s_phase s = Commit k \<Longrightarrow> set (rows_locked pg s) = {s_from pg s, s_to pg s}"
  using lo_hi_ids [of pg s] by (auto simp: rows_locked_def)

text \<open>A change of the committed database that leaves the locked rows alone keeps a session going.\<close>

lemma sess_frame:
  assumes "sess_ok pg d s"
    and "set (user_ids d) \<subseteq> set (user_ids d')" and "set (wallet_ids d) \<subseteq> set (wallet_ids d')"
    and "active s \<Longrightarrow> s_new s \<notin> set (transfer_ids d')"
    and "claimed s \<Longrightarrow> s_key pg s \<notin> set (map idem_key (transfers d'))"
    and "\<forall>x \<in> set (rows_locked pg s). same_row d d' x"
  shows "sess_ok pg d' s"
proof -
  have ready: "s_ready pg s d'" if "claimed s"
    using assms(1-3,5) assms(4) [OF claimed_active [OF that]] that
    by (auto simp: sess_ok_def claimable_def s_key_def)
  have bal: "balance_of d' x = balance_of d x" if "x \<in> set (rows_locked pg s)" for x
    using assms(6) that by (simp add: same_row_balance)
  show ?thesis
  proof (cases "s_phase s")
    case (Commit k)
    then have "same_row d d' (s_from pg s)" "same_row d d' (s_to pg s)"
      using assms(6) rows_locked_commit [OF Commit] by auto
    then have "s_short pg s d' = s_short pg s d" "funded pg s d' = funded pg s d" "moved_rows pg s d' = moved_rows pg s d"
      by (simp_all add: s_short_def seen_balance_def same_row_balance same_row_funded same_row_moved)
    with assms(1,4) ready Commit show ?thesis by (simp add: sess_ok_def)
  qed (use assms(1,4) ready bal in \<open>auto simp: sess_ok_def seen_both_def rows_locked_def\<close>)
qed

section \<open>Lemmas: the commit of a session is the atomic transaction\<close>

lemma publish_post:
  assumes "schema_ok d" and "sess_ok pg d s" and "s_phase s = Commit k"
  shows "publish pg s k d = post (s_row pg s k) d"
proof (cases k)
  case False
  with assms(2,3) have "s_writes s = Map.empty" by (simp add: sess_ok_def)
  with False show ?thesis by (simp add: publish_def post_def)
next
  case True
  with assms(2,3) have w: "s_writes s = moved_rows pg s d" by (simp add: sess_ok_def)
  let ?r = "s_row pg s True" and ?ws = "wallets d"
  have dist: "distinct (map w_id ?ws)" using assms(1) by (simp add: schema_simps)
  have "(case s_writes s (w_id x) of Some v \<Rightarrow> v | None \<Rightarrow> x) =
      (let y = (if w_id x = s_from pg s then add_balance (- t_amount_paise ?r) (s_now s) x else x)
       in if w_id y = s_to pg s then add_balance (t_amount_paise ?r) (s_now s) y else y)" if "x \<in> set ?ws" for x
    using find_key_unique [OF dist that]
    by (auto simp: w moved_rows_def move_def find_credit Let_def)
  then have "map (\<lambda>w. case s_writes s (w_id w) of Some v \<Rightarrow> v | None \<Rightarrow> w) ?ws = move ?r ?ws"
    unfolding move_def credit_def update_where_def by (auto simp: Let_def)
  with True show ?thesis by (simp add: publish_def post_def)
qed

lemma s_row_can_post:
  assumes "s_ready pg s d" and "k \<Longrightarrow> funded pg s d"
  shows "can_post (s_row pg s k) d"
proof -
  note r = ready_facts [OF assms(1)]
  have "transfer_check (s_row pg s k) = None"
    using r(3,4) by (simp add: s_row_def terminal_row_def terminal_row_check)
  moreover have "transfer_unique d (s_row pg s k) = None" "transfer_fk d (s_row pg s k) = None"
    using assms(1) r(5,6) by (simp_all add: transfer_unique_None transfer_fk_None s_key_def claimable_def)
      (simp add: s_row_def terminal_row_def)
  moreover have "t_completed_at (s_row pg s k) = Some (t_created_at (s_row pg s k))"
    by (simp add: s_row_def terminal_row_def)
  ultimately show ?thesis using assms(2) by (auto simp: can_post_def funded_def)
qed

text \<open>The commit has the effect of the whole body run alone on the database of that moment.\<close>

lemma commit_is_body:
  assumes "schema_ok d" and "sess_ok pg d s" and "s_phase s = Commit k"
  shows "transfer_body pg (s_env s) (s_req s) 0 v d =
    (fresh_vars\<lparr>result := \<lparr>transfer = answered (s_req s) (s_row pg s k), Replay = False\<rparr>\<rparr>, None, post (s_row pg s k) d)"
proof -
  have ready: "s_ready pg s d" using assms(2,3) by (simp add: sess_ok_def claimed_def)
  show ?thesis
  proof (cases k)
    case False
    with assms(2,3) have "s_short pg s d" by (simp add: sess_ok_def)
    with transfer_body_clear(1) [OF _ ready assms(1)] False show ?thesis
      by (simp add: s_short_def s_row_def)
  next
    case True
    with assms(2,3) have "\<not> s_short pg s d" "funded pg s d" by (simp_all add: sess_ok_def)
    moreover from this(2) obtain b c where "balance_of d (s_from pg s) = Some b" "balance_of d (s_to pg s) = Some c"
      "rq_AmountPaise (s_req s) \<le> b" "c + rq_AmountPaise (s_req s) \<le> int64_max" by (auto simp: funded_def)
    from apply_transfer_clear(1) [OF s_env_sel(3) ready assms(1) this] obtain d' where
      "apply_transfer pg (s_env s) 0 (new_uuid (s_env s) 0) (s_req s)
        (d\<lparr>transfers := transfers d @ [claim_row pg (s_env s) 0 (s_req s) (s_uid pg s) (s_from pg s) (s_to pg s)]\<rparr>) = Inr d'"
      by blast
    ultimately show ?thesis
      using transfer_body_clear(2) [OF s_env_sel(3) ready assms(1)] True by (simp add: s_short_def s_row_def)
  qed
qed

section \<open>Lemmas: every step keeps the invariant\<close>

lemma claim_ready:
  assumes "claim_key_sql pg (s_req s) (request_fingerprint pg (s_req s)) (s_new s) (s_now s) d = Inr d1"
  shows "s_ready pg s d"
proof -
  from assms claim_key_sql_Inr [of pg "s_req s" "s_env s" 0 d d1] obtain uid f t where
    b: "bound_request pg (s_req s) uid f t" and i: "insert_transfer (claim_row pg (s_env s) 0 (s_req s) uid f t) d = Inr d1"
    by auto
  from b have "s_uid pg s = uid" "s_from pg s = f" "s_to pg s = t"
    by (simp_all add: bound_request_def s_uid_def s_from_def s_to_def bid_def)
  with b i show ?thesis
    by (simp add: claimable_def insert_transfer_Inr claim_row_check transfer_unique_None transfer_fk_None)
qed

lemma select_wallet_row:
  assumes "select_wallet pg x d = Inr (Some w)"
  shows "w_id w = bid pg x" "balance_of d (bid pg x) = Some (w_balance_paise w)"
  using assms by (auto simp: select_wallet_def bid_def balance_of_def dest: find_Some_in split: sum.splits)

lemma finished_ok: "sess_ok pg d (s\<lparr>s_phase := Finished\<rparr>)"
  by (simp add: sess_ok_def active_def claimed_def)

text \<open>Values that only depend on the request do not change with the phase.\<close>

lemma request_indep [simp]:
  "s_uid pg (s\<lparr>s_phase := p\<rparr>) = s_uid pg s" "s_from pg (s\<lparr>s_phase := p\<rparr>) = s_from pg s" "s_to pg (s\<lparr>s_phase := p\<rparr>) = s_to pg s"
  "s_key pg (s\<lparr>s_phase := p\<rparr>) = s_key pg s" "s_env (s\<lparr>s_phase := p\<rparr>) = s_env s"
  "lo_text (s\<lparr>s_phase := p\<rparr>) = lo_text s" "hi_text (s\<lparr>s_phase := p\<rparr>) = hi_text s"
  "s_uid pg (s\<lparr>s_seen := m\<rparr>) = s_uid pg s" "s_from pg (s\<lparr>s_seen := m\<rparr>) = s_from pg s" "s_to pg (s\<lparr>s_seen := m\<rparr>) = s_to pg s"
  "s_key pg (s\<lparr>s_seen := m\<rparr>) = s_key pg s" "s_env (s\<lparr>s_seen := m\<rparr>) = s_env s"
  "lo_text (s\<lparr>s_seen := m\<rparr>) = lo_text s" "hi_text (s\<lparr>s_seen := m\<rparr>) = hi_text s"
  "s_uid pg (s\<lparr>s_writes := w\<rparr>) = s_uid pg s" "s_from pg (s\<lparr>s_writes := w\<rparr>) = s_from pg s" "s_to pg (s\<lparr>s_writes := w\<rparr>) = s_to pg s"
  "s_key pg (s\<lparr>s_writes := w\<rparr>) = s_key pg s" "s_env (s\<lparr>s_writes := w\<rparr>) = s_env s"
  "lo_text (s\<lparr>s_writes := w\<rparr>) = lo_text s" "hi_text (s\<lparr>s_writes := w\<rparr>) = hi_text s"
  by (simp_all add: s_uid_def s_from_def s_to_def s_key_def lo_text_def hi_text_def s_env_def)

lemma row_indep [simp]:
  "s_short pg (s\<lparr>s_phase := p\<rparr>) d = s_short pg s d" "funded pg (s\<lparr>s_phase := p\<rparr>) d = funded pg s d"
  "moved_rows pg (s\<lparr>s_phase := p\<rparr>) d = moved_rows pg s d" "seen_both pg (s\<lparr>s_phase := p\<rparr>) d = seen_both pg s d"
  "s_short pg (s\<lparr>s_seen := m\<rparr>) d = s_short pg s d" "funded pg (s\<lparr>s_seen := m\<rparr>) d = funded pg s d"
  "moved_rows pg (s\<lparr>s_seen := m\<rparr>) d = moved_rows pg s d" "seen_both pg (s\<lparr>s_seen := m\<rparr>) d = seen_both pg s d"
  "s_short pg (s\<lparr>s_writes := w\<rparr>) d = s_short pg s d" "funded pg (s\<lparr>s_writes := w\<rparr>) d = funded pg s d"
  "moved_rows pg (s\<lparr>s_writes := w\<rparr>) d = moved_rows pg s d" "seen_both pg (s\<lparr>s_writes := w\<rparr>) d = seen_both pg s d"
  by (simp_all add: s_short_def funded_def moved_rows_def s_row_def seen_both_def cong: if_cong)

lemma seen_balance_read:
  assumes "s_ready pg s d"
  shows "map_read (seen_both pg s d) (rq_FromWalletID (s_req s)) =
    seen_balance (s_req s) (s_from pg s) (s_to pg s) d"
  using lo_hi_ids [of pg s]
proof
  assume "bid pg (lo_text s) = s_from pg s \<and> bid pg (hi_text s) = s_to pg s"
  with ready_facts(4) [OF assms] show ?thesis by (simp add: seen_both_def map_read_def seen_balance_def)
next
  assume "bid pg (lo_text s) = s_to pg s \<and> bid pg (hi_text s) = s_from pg s"
  with ready_facts(4) [OF assms] show ?thesis by (simp add: seen_both_def map_read_def seen_balance_def)
qed

lemma session_stmt_ok:
  assumes "store_ok d" and "sess_ok pg d s" and "active s" and "session_stmt pg s d = (s', d')"
  shows "sess_ok pg d' s'"
    and "d' = d \<or> (\<exists>k. s_phase s = Commit k \<and> s_phase s' = Finished \<and> can_post (s_row pg s k) d \<and> d' = post (s_row pg s k) d)"
proof -
  have ready: "claimed s \<Longrightarrow> s_ready pg s d" and new: "s_new s \<notin> set (transfer_ids d)"
    using assms(2,3) by (simp_all add: sess_ok_def)
  have "sess_ok pg d' s' \<and>
    (d' = d \<or> (\<exists>k. s_phase s = Commit k \<and> s_phase s' = Finished \<and> can_post (s_row pg s k) d \<and> d' = post (s_row pg s k) d))"
  proof (cases "s_phase s")
    case Claim
    then show ?thesis
      using assms(4) new claim_ready [of pg s d]
      by (auto simp: session_stmt_def Let_def finished_ok sess_ok_def claimed_def split: sum.splits)
  next
    case LockLo
    then show ?thesis
      using assms(4) new ready
      by (auto simp: session_stmt_def Let_def finished_ok claimed_def sess_ok_def select_wallet_row
          split: sum.splits option.splits)
  next
    case LockHi
    then show ?thesis
      using assms(2,4) new ready
      by (auto simp: session_stmt_def Let_def finished_ok claimed_def sess_ok_def select_wallet_row seen_both_def
          split: sum.splits option.splits)
  next
    case Decide
    then have r: "s_ready pg s d" and seen: "s_seen s = seen_both pg s d"
      using ready assms(2) by (simp_all add: claimed_def sess_ok_def)
    have short: "map_read (s_seen s) (rq_FromWalletID (s_req s)) < rq_AmountPaise (s_req s) \<longleftrightarrow> s_short pg s d"
      using seen_balance_read [OF r] by (simp add: seen s_short_def)
    show ?thesis
    proof (cases "s_short pg s d")
      case True
      with assms(4) Decide new r short show ?thesis by (auto simp: session_stmt_def Let_def sess_ok_def)
    next
      case False
      with assms(4) Decide new r short new_versions_iff [OF store_okD(1) [OF assms(1)] r] show ?thesis
        by (cases "new_versions pg s d") (auto simp: session_stmt_def Let_def sess_ok_def finished_ok)
    qed
  next
    case (Commit k)
    have "k \<Longrightarrow> funded pg s d" using assms(2) Commit by (simp add: sess_ok_def)
    with ready Commit have "can_post (s_row pg s k) d" by (intro s_row_can_post) (simp_all add: claimed_def)
    with assms(4) Commit publish_post [OF store_okD(1) [OF assms(1)] assms(2) Commit] show ?thesis
      by (auto simp: session_stmt_def Let_def finished_ok)
  next
    case Finished
    with assms(3) show ?thesis by (simp add: active_def)
  qed
  then show "sess_ok pg d' s'"
    and "d' = d \<or> (\<exists>k. s_phase s = Commit k \<and> s_phase s' = Finished \<and> can_post (s_row pg s k) d \<and> d' = post (s_row pg s k) d)"
    by blast+
qed

definition exclusive_mode :: "lock_mode \<Rightarrow> bool" where
  "exclusive_mode mode \<longleftrightarrow> mode = ForNoKeyUpdate \<or> mode = ForUpdate"

lemma exclusive_conflicts:
  "exclusive_mode mode \<Longrightarrow> mode_conflicts mode mode" "exclusive_mode mode \<Longrightarrow> mode_conflicts ForNoKeyUpdate mode"
  by (auto simp: exclusive_mode_def)

lemma session_stmt_shape:
  assumes "session_stmt pg s d = (s', d')"
  shows "s_new s' = s_new s" "s_key pg s' = s_key pg s" "claimed s' \<Longrightarrow> claimed s \<or> s_phase s = Claim"
    "set (rows_locked pg s') \<subseteq> set (rows_locked pg s) \<union>
       (case s_phase s of LockLo \<Rightarrow> {bid pg (lo_text s)} | LockHi \<Rightarrow> {bid pg (hi_text s)} | _ \<Rightarrow> {})"
proof -
  have "s_new s' = s_new s \<and> s_key pg s' = s_key pg s \<and> (claimed s' \<longrightarrow> claimed s \<or> s_phase s = Claim) \<and>
    set (rows_locked pg s') \<subseteq> set (rows_locked pg s) \<union>
       (case s_phase s of LockLo \<Rightarrow> {bid pg (lo_text s)} | LockHi \<Rightarrow> {bid pg (hi_text s)} | _ \<Rightarrow> {})"
    using assms
    by (cases "s_phase s")
      (auto simp: session_stmt_def Let_def claimed_def rows_locked_def split: sum.splits option.splits if_splits)
  then show "s_new s' = s_new s" "s_key pg s' = s_key pg s" "claimed s' \<Longrightarrow> claimed s \<or> s_phase s = Claim"
    "set (rows_locked pg s') \<subseteq> set (rows_locked pg s) \<union>
       (case s_phase s of LockLo \<Rightarrow> {bid pg (lo_text s)} | LockHi \<Rightarrow> {bid pg (hi_text s)} | _ \<Rightarrow> {})"
    by blast+
qed

text \<open>A statement that did not have to wait for \<open>t\<close> takes nothing that \<open>t\<close> holds.\<close>

lemma not_waiting:
  assumes "\<not> waits_for pg mode s t" and "exclusive_mode mode"
  shows "s_phase s = Claim \<Longrightarrow> claimed t \<Longrightarrow> s_key pg s \<noteq> s_key pg t"
    and "s_phase s = LockLo \<Longrightarrow> bid pg (lo_text s) \<notin> set (rows_locked pg t)"
    and "s_phase s = LockHi \<Longrightarrow> bid pg (hi_text s) \<notin> set (rows_locked pg t)"
  using assms exclusive_conflicts(1) [OF assms(2)]
  by (auto simp: waits_for_def wanted_def held_def list_ex_iff)

lemma step_compat:
  assumes "compat pg s t" and "\<not> waits_for pg mode s t" and "exclusive_mode mode" and "active s"
    and "session_stmt pg s d = (s', d')"
  shows "compat pg s' t"
proof -
  note sh = session_stmt_shape [OF assms(5)] and nw = not_waiting [OF assms(2,3)]
  have "active s \<and> active t \<longrightarrow> s_new s \<noteq> s_new t" "claimed s \<and> claimed t \<longrightarrow> s_key pg s \<noteq> s_key pg t"
    "set (rows_locked pg s) \<inter> set (rows_locked pg t) = {}" using assms(1) by (auto simp: compat_def)
  moreover have "set (rows_locked pg s') \<inter> set (rows_locked pg t) = {}"
    using sh(4) nw(2,3) calculation(3) by (cases "s_phase s") auto
  ultimately show ?thesis using sh(1-3) nw(1) assms(4) by (auto simp: compat_def)
qed

lemma sys_okD:
  assumes "sys_ok pg S" and "i < length (sessions S)"
  shows "store_ok (cdb S)" "sess_ok pg (cdb S) (sessions S ! i)"
    "j < length (sessions S) \<Longrightarrow> i \<noteq> j \<Longrightarrow> compat pg (sessions S ! i) (sessions S ! j)"
  using assms by (auto simp: sys_ok_def)

text \<open>Replacing one session.\<close>

lemma sys_ok_update:
  assumes "sys_ok pg S" and "i < length (sessions S)" and "store_ok d'" and "sess_ok pg d' s'"
    and "\<And>j. j < length (sessions S) \<Longrightarrow> j \<noteq> i \<Longrightarrow> sess_ok pg d' (sessions S ! j) \<and> compat pg s' (sessions S ! j)"
  shows "sys_ok pg (S\<lparr>cdb := d', sessions := (sessions S)[i := s']\<rparr>)"
  unfolding sys_ok_def
proof (intro conjI ballI allI impI)
  show "store_ok (cdb (S\<lparr>cdb := d', sessions := (sessions S)[i := s']\<rparr>))" using assms(3) by simp
  fix s
  assume "s \<in> set (sessions (S\<lparr>cdb := d', sessions := (sessions S)[i := s']\<rparr>))"
  then obtain j where "j < length (sessions S)" "s = (sessions S)[i := s'] ! j" by (auto simp: in_set_conv_nth)
  then show "sess_ok pg (cdb (S\<lparr>cdb := d', sessions := (sessions S)[i := s']\<rparr>)) s"
    using assms(4,5) by (cases "j = i") simp_all
next
  fix j k
  assume "j < length (sessions (S\<lparr>cdb := d', sessions := (sessions S)[i := s']\<rparr>))"
    "k < length (sessions (S\<lparr>cdb := d', sessions := (sessions S)[i := s']\<rparr>))" "j \<noteq> k"
  then have jk: "j < length (sessions S)" "k < length (sessions S)" "j \<noteq> k" by simp_all
  have "compat pg ((sessions S)[i := s'] ! j) ((sessions S)[i := s'] ! k)"
    using jk assms(2,5) sys_okD(3) [OF assms(1) jk(1) jk(2,3)]
    by (cases "j = i"; cases "k = i") (auto intro: compat_sym)
  then show "compat pg (sessions (S\<lparr>cdb := d', sessions := (sessions S)[i := s']\<rparr>) ! j)
      (sessions (S\<lparr>cdb := d', sessions := (sessions S)[i := s']\<rparr>) ! k)" by simp
qed

lemma step_ok:
  assumes "sys_ok pg S" and "exclusive_mode mode" and "sys_exec pg mode (Step i) S = Some S'"
  shows "sys_ok pg S'"
proof -
  let ?s = "sessions S ! i" and ?d = "cdb S"
  from assms(3) have i: "i < length (sessions S)" "active ?s" "\<not> blocked pg mode i S" by (simp_all split: if_splits)
  obtain s' d' where stmt: "session_stmt pg ?s ?d = (s', d')" by fastforce
  with assms(3) i have S': "S' = S\<lparr>cdb := d', sessions := (sessions S)[i := s']\<rparr>" by simp
  note ok = sys_okD [OF assms(1) i(1)]
  note st = session_stmt_ok [OF ok(1,2) i(2) stmt]
  have "store_ok d'" using ok(1) st(2) by (auto intro: post_store_ok)
  moreover have "sess_ok pg d' (sessions S ! j) \<and> compat pg s' (sessions S ! j)"
    if j: "j < length (sessions S)" "j \<noteq> i" for j
  proof -
    let ?t = "sessions S ! j"
    have c: "compat pg ?s ?t" using ok(3) [OF j(1)] j(2) by simp
    have t: "sess_ok pg ?d ?t" using sys_okD(2) [OF assms(1) j(1)] .
    have "\<not> waits_for pg mode ?s ?t" using i(3) j by (auto simp: blocked_def list_ex_iff)
    with c assms(2) i(2) stmt have comp: "compat pg s' ?t" by (blast intro: step_compat)
    from st(2) have "sess_ok pg d' ?t"
    proof
      assume "d' = ?d"
      with t show ?thesis by simp
    next
      assume "\<exists>k. s_phase ?s = Commit k \<and> s_phase s' = Finished \<and> can_post (s_row pg ?s k) ?d \<and> d' = post (s_row pg ?s k) ?d"
      then obtain k where k: "s_phase ?s = Commit k" "d' = post (s_row pg ?s k) ?d" by blast
      have "claimed ?s" using k(1) by (simp add: claimed_def)
      with c i(2) have "active ?t \<Longrightarrow> s_new ?t \<noteq> s_new ?s" "claimed ?t \<Longrightarrow> s_key pg ?t \<noteq> s_key pg ?s"
        by (auto simp: compat_def)
      moreover have "same_row ?d d' x" if "x \<in> set (rows_locked pg ?t)" for x
        using c that rows_locked_commit [OF k(1), of pg] unfolding k(2)
        by (intro same_row_post) (auto simp: compat_def)
      moreover have "user_ids d' = user_ids ?d" "wallet_ids d' = wallet_ids ?d"
        unfolding k(2) by (simp_all add: post_def)
      moreover have "transfers d' = transfers ?d @ [s_row pg ?s k]" by (simp add: k(2) post_def)
      moreover have "claimed ?t \<Longrightarrow> s_key pg ?t \<notin> set (map idem_key (transfers ?d))"
        "active ?t \<Longrightarrow> s_new ?t \<notin> set (transfer_ids ?d)"
        using t by (simp_all add: sess_ok_def claimable_def s_key_def)
      ultimately show ?thesis using t
        by (intro sess_frame [OF t]) (auto simp: transfer_ids_iff)
    qed
    with comp show ?thesis by simp
  qed
  ultimately show ?thesis
    unfolding S' using assms(1) i(1) st(1) by (intro sys_ok_update)
qed

text \<open>A session that holds nothing is compatible with the others as long as its id is new.\<close>

lemma compat_idle:
  assumes "s_phase s = Claim \<or> s_phase s = Finished" and "active s \<Longrightarrow> s_new s \<noteq> s_new t"
  shows "compat pg s t"
  using assms by (auto simp: compat_def claimed_def rows_locked_def)

lemma abort_ok:
  assumes "sys_ok pg S" and "sys_exec pg mode (Abort i again) S = Some S'"
  shows "sys_ok pg S'"
proof -
  let ?s = "sessions S ! i"
  from assms(2) have i: "i < length (sessions S)" by (simp split: if_splits)
  have keep: "sys_ok pg (S\<lparr>sessions := (sessions S)[i := s']\<rparr>)"
    if "sess_ok pg (cdb S) s'" "\<And>j. j < length (sessions S) \<Longrightarrow> j \<noteq> i \<Longrightarrow> compat pg s' (sessions S ! j)" for s'
    using sys_ok_update [OF assms(1) i sys_okD(1) [OF assms(1) i] that(1)] that(2) sys_okD(2) [OF assms(1)] by simp
  show ?thesis
  proof (cases again)
    case None
    with assms(2) have "S' = S\<lparr>sessions := (sessions S)[i := ?s\<lparr>s_phase := Finished\<rparr>]\<rparr>" by (simp split: if_splits)
    moreover have "sys_ok pg (S\<lparr>sessions := (sessions S)[i := ?s\<lparr>s_phase := Finished\<rparr>]\<rparr>)"
      by (rule keep [OF finished_ok compat_idle]) (simp_all add: active_def)
    ultimately show ?thesis by simp
  next
    case (Some a)
    obtain u now where a: "a = (u, now)" by fastforce
    with assms(2) Some have f: "fresh_id u S"
      and S': "S' = S\<lparr>sessions := (sessions S)[i := ?s\<lparr>s_new := u, s_now := now, s_phase := Claim\<rparr>]\<rparr>"
      by (simp_all split: if_splits)
    show ?thesis
      unfolding S'
    proof (rule keep)
      show "sess_ok pg (cdb S) (?s\<lparr>s_new := u, s_now := now, s_phase := Claim\<rparr>)"
        using f by (simp add: sess_ok_def claimed_def fresh_id_def)
      show "compat pg (?s\<lparr>s_new := u, s_now := now, s_phase := Claim\<rparr>) (sessions S ! j)"
        if "j < length (sessions S)" "j \<noteq> i" for j
        using f that by (intro compat_idle) (auto simp: fresh_id_def)
    qed
  qed
qed

lemma arrive_ok:
  assumes "sys_ok pg S" and "sys_exec pg mode (Arrive req u now) S = Some S'"
  shows "sys_ok pg S'"
proof -
  let ?n = "\<lparr>s_req = req, s_new = u, s_now = now, s_phase = Claim, s_seen = Map.empty, s_writes = Map.empty\<rparr>"
  from assms(2) have f: "fresh_id u S" and S': "S' = S\<lparr>sessions := sessions S @ [?n]\<rparr>" by (simp_all split: if_splits)
  have new: "sess_ok pg (cdb S) ?n" using f by (simp add: sess_ok_def claimed_def fresh_id_def)
  have c: "compat pg ?n (sessions S ! j)" if "j < length (sessions S)" for j
    using f that by (intro compat_idle) (auto simp: fresh_id_def)
  have "compat pg ((sessions S @ [?n]) ! i) ((sessions S @ [?n]) ! j)"
    if "i \<noteq> j" "i < Suc (length (sessions S))" "j < Suc (length (sessions S))" for i j
    using that c sys_okD(3) [OF assms(1)]
    by (auto simp: nth_append less_Suc_eq intro: compat_sym)
  with assms(1) new show ?thesis by (simp add: S' sys_ok_def)
qed

text \<open>What a committed call of another operation leaves alone.\<close>

lemma other_frame:
  assumes "store_ok d" and "case op of OpTransfer _ _ _ \<Rightarrow> False | _ \<Rightarrow> True"
  shows "set (user_ids d) \<subseteq> set (user_ids (store_step pg op d))"
    and "set (wallet_ids d) \<subseteq> set (wallet_ids (store_step pg op d))"
    and "transfers (store_step pg op d) = transfers d"
    and "x \<in> set (wallet_ids d) \<Longrightarrow> (\<And>env i k n. op = OpMint env i k n \<Longrightarrow> x \<noteq> bid pg i) \<Longrightarrow> same_row d (store_step pg op d) x"
proof -
  let ?d' = "store_step pg op d"
  have "set (user_ids d) \<subseteq> set (user_ids ?d') \<and> set (wallet_ids d) \<subseteq> set (wallet_ids ?d') \<and>
    transfers ?d' = transfers d \<and>
    (x \<in> set (wallet_ids d) \<longrightarrow> (\<forall>env i k n. op = OpMint env i k n \<longrightarrow> x \<noteq> bid pg i) \<longrightarrow> same_row d ?d' x)"
  proof (cases op)
    case (OpUpsertUser c token)
    obtain r d' where u: "UpsertUser pg c token d = (r, d')" by fastforce
    then obtain y where "autocommit c (upsert_user_sql (TokenHash pg token) (q_uuid c) (q_now c) d) d = (y, d')"
      by (auto simp: UpsertUser_def split: prod.splits sum.splits)
    from autocommit_db [OF this] have "set (user_ids d) \<subseteq> set (user_ids d')"
      by (auto simp: upsert_user_sql_def insert_user_Inr split: option.splits sum.splits)
    moreover have "wallet_ids d' = wallet_ids d"
      using UpsertUser_tables [OF u] by (simp add: wallet_ids_def del: ids_fold)
    ultimately show ?thesis using OpUpsertUser u UpsertUser_tables [OF u] by (simp add: same_row_def)
  next
    case (OpGetOrCreateWallet c userID)
    obtain r d' where u: "GetOrCreateWallet pg c userID d = (r, d')" by fastforce
    from GetOrCreateWallet_tables [OF u] obtain new where n: "wallets d' = wallets d @ new" "users d' = users d"
      "transfers d' = transfers d" by blast
    have "same_row d d' x" if "x \<in> set (wallet_ids d)"
      using that by (auto simp: same_row_def n(1) find_append wallet_ids_iff find_None_not split: option.split)
    then show ?thesis using OpGetOrCreateWallet u n by (auto simp: id_lists simp del: ids_fold)
  next
    case (OpMint env i k n)
    obtain r d' rs where m: "Mint pg env i k n d = (r, d', rs)" by (metis prod_cases3)
    from Mint_db [OF m store_okD(1) [OF assms(1)]] show ?thesis
    proof
      assume "d' = d"
      then show ?thesis using OpMint m by (simp add: same_row_def)
    next
      assume "\<exists>a u. bind_uuid pg i = Inr u \<and> can_deposit (mint_row_of env a k u n) d \<and> d' = deposit (mint_row_of env a k u n) d"
      then obtain a u where u: "bind_uuid pg i = Inr u" "d' = deposit (mint_row_of env a k u n) d" by blast
      have "same_row d d' x" if "x \<noteq> u"
        using that by (auto simp: same_row_def u(2) deposit_def find_credit mint_row_of_def
            dest: find_wallet_id intro!: option.map_ident_strong dest!: in_set_conv_decomp [THEN iffD1])
      then show ?thesis using OpMint m u by (simp add: bid_def deposit_def)
    qed
  next
    case (OpTransfer env c req)
    with assms(2) show ?thesis by simp
  qed
  then show "set (user_ids d) \<subseteq> set (user_ids ?d')" "set (wallet_ids d) \<subseteq> set (wallet_ids ?d')"
    "transfers ?d' = transfers d"
    "x \<in> set (wallet_ids d) \<Longrightarrow> (\<And>env i k n. op = OpMint env i k n \<Longrightarrow> x \<noteq> bid pg i) \<Longrightarrow> same_row d ?d' x"
    by blast+
qed

lemma other_ok:
  assumes "sys_ok pg S" and "exclusive_mode mode" and "sys_exec pg mode (Other op) S = Some S'"
  shows "sys_ok pg S'"
proof -
  let ?d = "cdb S" and ?d' = "store_step pg op (cdb S)"
  from assms(3) have a: "other_allowed pg mode op S" and S': "S' = S\<lparr>cdb := ?d'\<rparr>" by (simp_all split: if_splits)
  have ok: "store_ok ?d" using assms(1) by (simp add: sys_ok_def)
  have nt: "case op of OpTransfer _ _ _ \<Rightarrow> False | _ \<Rightarrow> True" using a by (cases op) (simp_all add: other_allowed_def)
  note fr = other_frame [OF ok nt, where pg = pg]
  have "sess_ok pg ?d' s" if s: "s \<in> set (sessions S)" for s
  proof (rule sess_frame)
    show t: "sess_ok pg ?d s" using assms(1) s by (simp add: sys_ok_def)
    have ids: "transfer_ids ?d' = transfer_ids ?d" using fr(3) by (simp add: transfer_ids_def del: ids_fold)
    then show "active s \<Longrightarrow> s_new s \<notin> set (transfer_ids ?d')" using t by (simp add: sess_ok_def)
    show "claimed s \<Longrightarrow> s_key pg s \<notin> set (map idem_key (transfers ?d'))"
      using t fr(3) by (simp add: sess_ok_def claimable_def s_key_def)
    show "\<forall>x \<in> set (rows_locked pg s). same_row ?d ?d' x"
    proof
      fix x
      assume x: "x \<in> set (rows_locked pg s)"
      with rows_locked_claimed [OF x] t have "x \<in> set (wallet_ids ?d)"
        by (auto simp: sess_ok_def dest: ready_facts)
      moreover have "x \<noteq> bid pg i" if "op = OpMint env i k n" for env i k n
        using a that s x exclusive_conflicts(2) [OF assms(2)]
        by (auto simp: other_allowed_def list_all_iff held_def)
      ultimately show "same_row ?d ?d' x" by (rule fr(4))
    qed
  qed (use fr(1,2) in auto)
  with assms(1) ok show ?thesis by (simp add: S' sys_ok_def store_step_ok)
qed

lemma exec_ok:
  assumes "sys_ok pg S" and "exclusive_mode mode" and "sys_exec pg mode e S = Some S'"
  shows "sys_ok pg S'"
  using assms by (cases e) (blast intro: arrive_ok step_ok abort_ok other_ok)+

lemma sys_ok_start: "store_ok d \<Longrightarrow> sys_ok pg (start d)"
  by (simp add: sys_ok_def start_def)

lemma reachable_ok:
  assumes "reachable pg mode d0 S" and "store_ok d0" and "exclusive_mode mode"
  shows "sys_ok pg S"
  using assms(1) by (induction rule: reachable.induct) (auto intro: sys_ok_start exec_ok assms(2,3))

lemma sys_run_reachable:
  "reachable pg mode d0 S \<Longrightarrow> sys_run pg mode es S = Some S' \<Longrightarrow> reachable pg mode d0 S'"
  by (induction pg mode es S rule: sys_run.induct) (auto split: option.splits intro: reachable.event)

end
