(* ===== verification/Session_Props.thy ===== *)
theory Session_Props
  imports Sessions "HOL-Library.Multiset"
begin

text \<open>
  What the locking discipline of \<open>Transfer\<close> achieves in every interleaving: the committed
  database is that of the committed calls run one after the other, the sessions cannot deadlock
  as long as wallet ids are spelled canonically, and all of them finish. Two reachable deadlocks
  show that both parts of the discipline are needed.
\<close>

section \<open>Resources in the order of acquisition\<close>

datatype resource = KeyOf "uuid \<times> string" | RowOf uuid

fun res_rank :: "resource \<Rightarrow> string list" where
  "res_rank (KeyOf k) = []"
| "res_rank (RowOf x) = [x]"

definition s_wants :: "pg \<Rightarrow> session \<Rightarrow> resource option" where
  "s_wants pg s =
     (case s_phase s of
        Claim \<Rightarrow> Some (KeyOf (s_key pg s))
      | LockLo \<Rightarrow> Some (RowOf (bid pg (lo_text s)))
      | LockHi \<Rightarrow> Some (RowOf (bid pg (hi_text s)))
      | _ \<Rightarrow> None)"

definition s_holds :: "pg \<Rightarrow> session \<Rightarrow> resource set" where
  "s_holds pg s = (if claimed s then {KeyOf (s_key pg s)} else {}) \<union> RowOf ` set (rows_locked pg s)"

definition canonical_request :: "pg \<Rightarrow> TransferRequest \<Rightarrow> bool" where
  "canonical_request pg req \<longleftrightarrow> canonical pg (rq_FromWalletID req) \<and> canonical pg (rq_ToWalletID req)"

definition orderly :: "pg \<Rightarrow> system \<Rightarrow> bool" where
  "orderly pg S \<longleftrightarrow> sys_ok pg S \<and> (\<forall>s \<in> set (sessions S). canonical_request pg (s_req s))"

text \<open>With \<open>FOR NO KEY UPDATE\<close> the foreign-key locks block nobody.\<close>

lemma held_conflict:
  "list_ex (\<lambda>(y, m'). x = y \<and> mode_conflicts m m') (held pg mode s) \<longleftrightarrow>
     (claimed s \<and> mode_conflicts m ForKeyShare \<and> (x = s_from pg s \<or> x = s_to pg s)) \<or>
     (mode_conflicts m mode \<and> x \<in> set (rows_locked pg s))"
  by (auto simp: held_def list_ex_iff)

lemma waits_for_iff:
  "waits_for pg ForNoKeyUpdate s s' \<longleftrightarrow> (\<exists>r. s_wants pg s = Some r \<and> r \<in> s_holds pg s')"
  by (cases "s_phase s")
    (auto simp: waits_for_def wanted_def held_conflict s_wants_def s_holds_def)

lemma canonical_order:
  assumes "canonical_request pg (s_req s)" and "s_ready pg s d"
  shows "bid pg (lo_text s) = lo_text s" "bid pg (hi_text s) = hi_text s" "lo_text s < hi_text s"
proof -
  have b: "bid pg (rq_FromWalletID (s_req s)) = rq_FromWalletID (s_req s)" "bid pg (rq_ToWalletID (s_req s)) = rq_ToWalletID (s_req s)"
    using assms(1) by (simp_all add: canonical_request_def bid_def)
  have "rq_FromWalletID (s_req s) \<noteq> rq_ToWalletID (s_req s)" by (rule claimable_distinct_texts [OF assms(2)])
  with b show "bid pg (lo_text s) = lo_text s" "bid pg (hi_text s) = hi_text s" "lo_text s < hi_text s"
    by (auto simp: lo_text_def hi_text_def lock_order_def)
qed

interpretation wl: ranked_locks "orderly pg" "\<lambda>S. {..<length (sessions S)}"
  "\<lambda>S i. s_wants pg (sessions S ! i)" "\<lambda>S i. s_holds pg (sessions S ! i)" res_rank for pg
proof
  show "finite {..<length (sessions S)}" if "orderly pg S" for S :: system by simp
  fix S :: system and i r r'
  assume ok: "orderly pg S" "i \<in> {..<length (sessions S)}"
    and w: "s_wants pg (sessions S ! i) = Some r" and h: "r' \<in> s_holds pg (sessions S ! i)"
  let ?s = "sessions S ! i"
  have s: "sess_ok pg (cdb S) ?s" "canonical_request pg (s_req ?s)"
    using ok by (auto simp: orderly_def sys_ok_def)
  show "res_rank r' < res_rank r"
  proof (cases "s_phase ?s")
    case LockHi
    then have "s_ready pg ?s (cdb S)" using s(1) by (simp add: sess_ok_def claimed_def)
    from canonical_order [OF s(2) this] LockHi w h show ?thesis
      by (auto simp: s_wants_def s_holds_def rows_locked_def split: if_splits)
  qed (use w h in \<open>auto simp: s_wants_def s_holds_def rows_locked_def claimed_def split: if_splits\<close>)
qed

lemma orderly_reachable:
  assumes "reachable pg select_mode d0 S" and "store_ok d0" and "\<forall>s \<in> set (sessions S). canonical_request pg (s_req s)"
  shows "orderly pg S"
  using reachable_ok [OF assms(1,2)] assms(3) by (simp add: orderly_def select_mode_def exclusive_mode_def)

lemma some_session_runs:
  assumes "orderly pg S" and "i < length (sessions S)" and "active (sessions S ! i)"
  shows "\<exists>j < length (sessions S). active (sessions S ! j) \<and> \<not> blocked pg select_mode j S"
proof -
  let ?X = "{j. j < length (sessions S) \<and> active (sessions S ! j)}"
  have X: "?X \<subseteq> {..<length (sessions S)}" "?X \<noteq> {}" using assms(2,3) by auto
  from wl.some_unblocked [OF assms(1) X] obtain a where a: "a < length (sessions S)" "active (sessions S ! a)"
    "\<forall>b \<in> ?X. \<forall>r. s_wants pg (sessions S ! a) = Some r \<longrightarrow> r \<notin> s_holds pg (sessions S ! b)" by auto
  have "\<not> blocked pg select_mode a S"
  proof
    assume "blocked pg select_mode a S"
    then obtain j r where j: "j < length (sessions S)" "s_wants pg (sessions S ! a) = Some r" "r \<in> s_holds pg (sessions S ! j)"
      by (auto simp: blocked_def list_ex_iff select_mode_def waits_for_iff)
    have "active (sessions S ! j)"
      using j(3) by (cases "s_phase (sessions S ! j)") (auto simp: s_holds_def active_def claimed_def rows_locked_def)
    with a(3) j show False by simp
  qed
  with a show ?thesis by blast
qed

lemma unblocked_steps:
  assumes "j < length (sessions S)" and "active (sessions S ! j)" and "\<not> blocked pg mode j S"
  shows "\<exists>S'. sys_exec pg mode (Step j) S = Some S'"
  using assms by (cases "session_stmt pg (sessions S ! j) (cdb S)") simp

section \<open>Lemmas: sequential equivalents\<close>

text \<open>
  The serial order of a run: the sessions in the order in which they commit, as they stand then,
  with their decision, and the other calls where they take effect.
\<close>

datatype serial_call = Committed session bool | Called store_op

fun call_op :: "serial_call \<Rightarrow> store_op" where
  "call_op (Committed s k) = OpTransfer (s_env s) (calm 0 []) (s_req s)"
| "call_op (Called op) = op"

definition effect_of :: "sys_event \<Rightarrow> system \<Rightarrow> serial_call list" where
  "effect_of e S =
     (case e of
        Step i \<Rightarrow> (case s_phase (sessions S ! i) of Commit k \<Rightarrow> [Committed (sessions S ! i) k] | _ \<Rightarrow> [])
      | Other op \<Rightarrow> [Called op]
      | _ \<Rightarrow> [])"

fun serial_order :: "pg \<Rightarrow> lock_mode \<Rightarrow> sys_event list \<Rightarrow> system \<Rightarrow> serial_call list" where
  "serial_order pg mode [] S = []"
| "serial_order pg mode (e # es) S =
     (case sys_exec pg mode e S of None \<Rightarrow> [] | Some S' \<Rightarrow> effect_of e S @ serial_order pg mode es S')"

text \<open>The requests that committed, the requests that arrived, and the other calls.\<close>

definition committed_requests :: "serial_call list \<Rightarrow> TransferRequest list" where
  "committed_requests cs = concat (map (\<lambda>c. case c of Committed s k \<Rightarrow> [s_req s] | Called op \<Rightarrow> []) cs)"

definition other_calls :: "serial_call list \<Rightarrow> store_op list" where
  "other_calls cs = concat (map (\<lambda>c. case c of Committed s k \<Rightarrow> [] | Called op \<Rightarrow> [op]) cs)"

definition arrived_requests :: "sys_event list \<Rightarrow> TransferRequest list" where
  "arrived_requests es = concat (map (\<lambda>e. case e of Arrive req u now \<Rightarrow> [req] | _ \<Rightarrow> []) es)"

definition other_events :: "sys_event list \<Rightarrow> store_op list" where
  "other_events es = concat (map (\<lambda>e. case e of Other op \<Rightarrow> [op] | _ \<Rightarrow> []) es)"

lemma session_stmt_db: "session_stmt pg s d = (s', d') \<Longrightarrow> (\<And>k. s_phase s \<noteq> Commit k) \<Longrightarrow> d' = d"
  by (cases "s_phase s") (auto simp: session_stmt_def Let_def split: sum.splits option.splits if_splits)

text \<open>What the sequential call answers, in the place of a commit.\<close>

lemma commit_answer:
  assumes "store_ok d" and "sess_ok pg d s" and "s_phase s = Commit k"
  shows "store_Transfer pg (s_env s) c (s_req s) d =
    (Inr \<lparr>transfer = answered (s_req s) (s_row pg s k), Replay = False\<rparr>, post (s_row pg s k) d, [])"
proof -
  have "s_ready pg s d" using assms(2,3) by (simp add: sess_ok_def claimed_def)
  from store_Transfer_clear [OF s_env_sel(3) this store_okD(1) [OF assms(1)]
      commit_is_body [OF store_okD(1) [OF assms(1)] assms(2,3)]]
  show ?thesis .
qed

lemma exec_serial:
  assumes "sys_ok pg S" and "sys_exec pg mode e S = Some S'"
  shows "cdb S' = store_run pg (map call_op (effect_of e S)) (cdb S)"
    and "Committed s k \<in> set (effect_of e S) \<Longrightarrow>
      fst (store_Transfer pg (s_env s) (calm 0 []) (s_req s) (cdb S)) =
        Inr \<lparr>transfer = answered (s_req s) (s_row pg s k), Replay = False\<rparr> \<and> effect_of e S = [Committed s k]"
proof -
  have "cdb S' = store_run pg (map call_op (effect_of e S)) (cdb S) \<and>
    (Committed s k \<in> set (effect_of e S) \<longrightarrow>
      fst (store_Transfer pg (s_env s) (calm 0 []) (s_req s) (cdb S)) =
        Inr \<lparr>transfer = answered (s_req s) (s_row pg s k), Replay = False\<rparr> \<and> effect_of e S = [Committed s k])"
  proof (cases e)
    case (Step i)
    let ?s = "sessions S ! i" and ?d = "cdb S"
    from assms(2) Step have i: "i < length (sessions S)" "active ?s" by (simp_all split: if_splits)
    obtain s' d' where stmt: "session_stmt pg ?s ?d = (s', d')" by fastforce
    with assms(2) Step i have d': "cdb S' = d'" by (simp split: if_splits prod.splits) auto
    note ok = sys_okD [OF assms(1) i(1)]
    show ?thesis
    proof (cases "\<exists>k. s_phase ?s = Commit k")
      case True
      then obtain k' where k: "s_phase ?s = Commit k'" by blast
      have "d' = post (s_row pg ?s k') ?d"
        using stmt k publish_post [OF store_okD(1) [OF ok(1)] ok(2) k] by (simp add: session_stmt_def Let_def)
      with commit_answer [OF ok(1,2) k, of "calm 0 []"] k Step d' show ?thesis
        by (auto simp: effect_of_def store_run_def)
    next
      case False
      with session_stmt_db [OF stmt] Step d' show ?thesis
        by (auto simp: effect_of_def store_run_def split: phase.split)
    qed
  qed (use assms(2) in \<open>auto simp: effect_of_def store_run_def split: if_splits option.splits\<close>)
  then show "cdb S' = store_run pg (map call_op (effect_of e S)) (cdb S)"
    and "Committed s k \<in> set (effect_of e S) \<Longrightarrow>
      fst (store_Transfer pg (s_env s) (calm 0 []) (s_req s) (cdb S)) =
        Inr \<lparr>transfer = answered (s_req s) (s_row pg s k), Replay = False\<rparr> \<and> effect_of e S = [Committed s k]"
    by blast+
qed

text \<open>Every request commits at most as often as it arrived: a commit ends its session.\<close>

definition active_requests :: "system \<Rightarrow> TransferRequest list" where
  "active_requests S = map s_req (filter active (sessions S))"

lemma replace_active:
  assumes "i < length ss" and "active (ss ! i)" and "s_req s' = s_req (ss ! i)"
  shows "mset (map s_req (filter active ss)) =
    (if active s' then {#} else {#s_req s'#}) + mset (map s_req (filter active (ss[i := s'])))"
proof -
  let ?xs = "take i ss" and ?ys = "drop (Suc i) ss"
  have "mset (map s_req (filter active (?xs @ ss ! i # ?ys))) =
    (if active s' then {#} else {#s_req s'#}) + mset (map s_req (filter active (?xs @ s' # ?ys)))"
    using assms(2,3) by simp
  then show ?thesis using assms(1) by (simp only: id_take_nth_drop [symmetric] upd_conv_take_nth_drop)
qed

lemma session_stmt_req: "session_stmt pg s d = (s', d') \<Longrightarrow> s_req s' = s_req s"
  by (cases "s_phase s") (auto simp: session_stmt_def Let_def split: sum.splits option.splits if_splits)

lemma exec_requests:
  assumes "sys_exec pg mode e S = Some S'"
  shows "mset (committed_requests (effect_of e S)) + mset (active_requests S') \<subseteq>#
    mset (active_requests S) + mset (arrived_requests [e])"
proof (cases e)
  case (Arrive req u now)
  with assms show ?thesis
    by (auto simp: effect_of_def committed_requests_def active_requests_def arrived_requests_def active_def split: if_splits)
next
  case (Step i)
  let ?s = "sessions S ! i"
  from assms Step have i: "i < length (sessions S)" "active ?s" by (simp_all split: if_splits)
  obtain s' d' where stmt: "session_stmt pg ?s (cdb S) = (s', d')" by fastforce
  with assms Step i have S': "sessions S' = (sessions S)[i := s']" by (auto split: if_splits)
  have fin: "\<not> active s'" if "s_phase ?s = Commit k" for k
    using stmt that by (auto simp: session_stmt_def Let_def active_def)
  show ?thesis
    using replace_active [OF i session_stmt_req [OF stmt]] Step fin session_stmt_req [OF stmt]
    by (auto simp: S' effect_of_def committed_requests_def active_requests_def arrived_requests_def split: phase.split)
next
  case (Abort i again)
  let ?s = "sessions S ! i"
  from assms Abort have i: "i < length (sessions S)" "active ?s" by (simp_all split: if_splits)
  from assms Abort i obtain s' where "sessions S' = (sessions S)[i := s']" "s_req s' = s_req ?s"
    by (auto split: option.splits if_splits)
  with replace_active [OF i this(2)] Abort show ?thesis
    by (auto simp: effect_of_def committed_requests_def active_requests_def arrived_requests_def)
next
  case (Other op)
  with assms show ?thesis
    by (auto simp: effect_of_def committed_requests_def active_requests_def arrived_requests_def split: if_splits)
qed

lemma run_requests:
  assumes "sys_run pg mode es S = Some S'"
  shows "mset (committed_requests (serial_order pg mode es S)) + mset (active_requests S') \<subseteq>#
    mset (active_requests S) + mset (arrived_requests es)"
  using assms
proof (induction es arbitrary: S)
  case Nil
  then show ?case by (simp add: committed_requests_def arrived_requests_def)
next
  case (Cons e es)
  then obtain S1 where S1: "sys_exec pg mode e S = Some S1" "sys_run pg mode es S1 = Some S'"
    by (auto split: option.splits simp del: sys_exec.simps)
  let ?c1 = "mset (committed_requests (effect_of e S))" and ?c2 = "mset (committed_requests (serial_order pg mode es S1))"
  have "mset (committed_requests (serial_order pg mode (e # es) S)) + mset (active_requests S') =
      ?c1 + (?c2 + mset (active_requests S'))"
    using S1(1) by (simp add: committed_requests_def add.assoc del: sys_exec.simps)
  also have "\<dots> \<subseteq># ?c1 + (mset (active_requests S1) + mset (arrived_requests es))"
    using Cons.IH [OF S1(2)] by simp
  also have "\<dots> = (?c1 + mset (active_requests S1)) + mset (arrived_requests es)" by (simp add: add.assoc)
  also have "\<dots> \<subseteq># (mset (active_requests S) + mset (arrived_requests [e])) + mset (arrived_requests es)"
    using exec_requests [OF S1(1)] by (rule subset_mset.add_right_mono)
  also have "\<dots> = mset (active_requests S) + mset (arrived_requests (e # es))"
    by (simp add: arrived_requests_def)
  finally show ?case .
qed

lemma run_others:
  assumes "sys_run pg mode es S = Some S'"
  shows "other_calls (serial_order pg mode es S) = other_events es"
  using assms
proof (induction es arbitrary: S)
  case (Cons e es)
  then obtain S1 where S1: "sys_exec pg mode e S = Some S1" "sys_run pg mode es S1 = Some S'"
    by (auto split: option.splits simp del: sys_exec.simps)
  have "other_calls (effect_of e S) = other_events [e]"
    by (auto simp: effect_of_def other_calls_def other_events_def split: sys_event.split phase.split)
  with Cons.IH [OF S1(2)] S1(1) show ?case
    by (simp add: other_calls_def other_events_def del: sys_exec.simps)
qed (simp add: other_calls_def other_events_def)

lemma run_serial:
  assumes "sys_ok pg S" and "exclusive_mode mode" and "sys_run pg mode es S = Some S'"
  shows "cdb S' = store_run pg (map call_op (serial_order pg mode es S)) (cdb S)"
    and "serial_order pg mode es S = before @ Committed s k # after \<Longrightarrow>
      fst (store_Transfer pg (s_env s) (calm 0 []) (s_req s) (store_run pg (map call_op before) (cdb S))) =
        Inr \<lparr>transfer = answered (s_req s) (s_row pg s k), Replay = False\<rparr>"
proof -
  have "cdb S' = store_run pg (map call_op (serial_order pg mode es S)) (cdb S) \<and>
    (\<forall>before. serial_order pg mode es S = before @ Committed s k # after \<longrightarrow>
      fst (store_Transfer pg (s_env s) (calm 0 []) (s_req s) (store_run pg (map call_op before) (cdb S))) =
        Inr \<lparr>transfer = answered (s_req s) (s_row pg s k), Replay = False\<rparr>)"
    using assms(1,3)
  proof (induction es arbitrary: S)
    case (Cons e es)
    then obtain S1 where S1: "sys_exec pg mode e S = Some S1" "sys_run pg mode es S1 = Some S'"
      by (auto split: option.splits simp del: sys_exec.simps)
    note IH = Cons.IH [OF exec_ok [OF Cons.prems(1) assms(2) S1(1)] S1(2)]
      and ex = exec_serial [OF Cons.prems(1) S1(1)]
    have so: "serial_order pg mode (e # es) S = effect_of e S @ serial_order pg mode es S1"
      using S1(1) by (simp del: sys_exec.simps)
    have "fst (store_Transfer pg (s_env s) (calm 0 []) (s_req s) (store_run pg (map call_op before) (cdb S))) =
        Inr \<lparr>transfer = answered (s_req s) (s_row pg s k), Replay = False\<rparr>"
      if b: "serial_order pg mode (e # es) S = before @ Committed s k # after" for before
    proof -
      from b [unfolded so, THEN append_eq_append_conv2 [THEN iffD1]] obtain us where
        "effect_of e S = before @ us \<and> us @ serial_order pg mode es S1 = Committed s k # after \<or>
         effect_of e S @ us = before \<and> serial_order pg mode es S1 = us @ Committed s k # after" by blast
      then consider (later) us where "effect_of e S @ us = before" "serial_order pg mode es S1 = us @ Committed s k # after"
        | (now) us where "effect_of e S = before @ Committed s k # us" by (cases us) auto
      then show ?thesis
      proof cases
        case (later us)
        with IH ex(1) show ?thesis by (auto simp: store_run_def)
      next
        case (now us)
        then have "Committed s k \<in> set (effect_of e S)" by simp
        from ex(2) [OF this] now show ?thesis by (auto simp: store_run_def append_eq_Cons_conv)
      qed
    qed
    moreover have "cdb S' = store_run pg (map call_op (serial_order pg mode (e # es) S)) (cdb S)"
      unfolding so using IH ex(1) by (simp add: store_run_def)
    ultimately show ?case by blast
  qed (simp add: store_run_def)
  then show "cdb S' = store_run pg (map call_op (serial_order pg mode es S)) (cdb S)"
    and "serial_order pg mode es S = before @ Committed s k # after \<Longrightarrow>
      fst (store_Transfer pg (s_env s) (calm 0 []) (s_req s) (store_run pg (map call_op before) (cdb S))) =
        Inr \<lparr>transfer = answered (s_req s) (s_row pg s k), Replay = False\<rparr>"
    by blast+
qed

section \<open>Properties\<close>

text \<open>
  C1: Serializability. However the statements of any number of concurrent transfers are
  interleaved with each other, with aborts, retries and other calls, the committed database is
  exactly that of the same calls run one after the other: the transfers that committed, in the
  order of their commits, and the other calls where they took effect. In that sequential run each
  of these transfers is answered with the very row that its session committed, as a new transfer;
  every request commits at most as often as it arrived; and no other call is left out or added.
\<close>

theorem interleavings_serialize:
  assumes "store_ok d0" and "sys_run pg select_mode es (start d0) = Some S"
    and "cs = serial_order pg select_mode es (start d0)"
  shows "cdb S = store_run pg (map call_op cs) d0 \<and>
    (\<forall>before s k after. cs = before @ Committed s k # after \<longrightarrow>
       fst (store_Transfer pg (s_env s) (calm 0 []) (s_req s) (store_run pg (map call_op before) d0)) =
         Inr \<lparr>transfer = answered (s_req s) (s_row pg s k), Replay = False\<rparr>) \<and>
    mset (committed_requests cs) \<subseteq># mset (arrived_requests es) \<and> other_calls cs = other_events es"
proof -
  have ok: "sys_ok pg (start d0)" "exclusive_mode select_mode" "cdb (start d0) = d0" "active_requests (start d0) = []"
    using sys_ok_start [OF assms(1)] by (simp_all add: select_mode_def exclusive_mode_def start_def active_requests_def)
  note r = run_serial [OF ok(1,2) assms(2)] and q = run_requests [OF assms(2)] and o = run_others [OF assms(2)]
  have "mset (committed_requests cs) \<subseteq># mset (arrived_requests es)"
    using subset_mset.order_trans [OF mset_subset_eq_add_left q] ok(4) by (simp add: assms(3))
  with r o show ?thesis unfolding assms(3) ok(3) by blast
qed

text \<open>Two transfers between the same wallets in opposite directions, and an interleaving of their statements.\<close>

definition bob_req :: "paise \<Rightarrow> TransferRequest" where
  "bob_req n =
     \<lparr>RequesterUserID = bob, rq_FromWalletID = wallet_b, rq_ToWalletID = wallet_a,
      rq_AmountPaise = n, rq_IdempotencyKey = ''order-2''\<rparr>"

definition crossing :: "sys_event list" where
  "crossing =
     [Arrive (sample_req 400) transfer_1 9, Arrive (bob_req 100) transfer_2 9, Step 0, Step 1, Step 0, Step 0, Step 0, Step 0,
      Step 1, Step 1, Step 1]"

lemma crossing_run:
  obtains S where "sys_run sample_pg select_mode crossing (start sample_db) = Some S"
    "reachable sample_pg select_mode sample_db S" "map s_phase (sessions S) = [Finished, Commit True]"
    "map s_req (sessions S) = [sample_req 400, bob_req 100]"
proof -
  have "case sys_run sample_pg select_mode crossing (start sample_db) of
      Some S \<Rightarrow> map s_phase (sessions S) = [Finished, Commit True] \<and> map s_req (sessions S) = [sample_req 400, bob_req 100]
    | None \<Rightarrow> False" by code_simp
  with that show ?thesis by (auto split: option.splits intro: sys_run_reachable reachable.initial)
qed

text \<open>The first session of that run commits before the second one locks its rows.\<close>

theorem interleavings_serialize_witness:
  "\<exists>S s. sys_run sample_pg select_mode crossing (start sample_db) = Some S \<and> s_req s = sample_req 400 \<and>
     serial_order sample_pg select_mode crossing (start sample_db) = [Committed s True] \<and>
     cdb S = store_run sample_pg [OpTransfer (s_env s) (calm 0 []) (sample_req 400)] sample_db"
proof -
  obtain S where S: "sys_run sample_pg select_mode crossing (start sample_db) = Some S" by (rule crossing_run)
  have "case serial_order sample_pg select_mode crossing (start sample_db) of
      [Committed s True] \<Rightarrow> s_req s = sample_req 400 | _ \<Rightarrow> False" by code_simp
  then obtain s where s: "serial_order sample_pg select_mode crossing (start sample_db) = [Committed s True]" "s_req s = sample_req 400"
    by (auto split: list.splits serial_call.splits bool.splits)
  from interleavings_serialize [OF sample_store_ok S refl] s S show ?thesis by (intro exI [of _ S] exI [of _ s]) simp
qed

text \<open>
  In every state of every interleaving the money is safe: no balance is negative or beyond
  \<open>bigint\<close>, the balances sum to what was minted, the ledger nets to zero, no committed transfer
  is pending, and no key was used twice.
\<close>

theorem interleavings_keep_books:
  assumes "reachable pg select_mode d0 S" and "store_ok d0"
  shows "(\<forall>w \<in> set (wallets (cdb S)). 0 \<le> w_balance_paise w \<and> w_balance_paise w \<le> int64_max) \<and>
    total_balance (cdb S) = total_minted (cdb S) \<and> ledger_sum (cdb S) = 0 \<and>
    (\<forall>t \<in> set (transfers (cdb S)). t_status t \<noteq> ''pending'') \<and> distinct (map idem_key (transfers (cdb S)))"
proof -
  have "store_ok (cdb S)"
    using reachable_ok [OF assms] by (simp add: select_mode_def exclusive_mode_def sys_ok_def)
  moreover from this have "schema_ok (cdb S)" "books_ok (cdb S)" by auto
  ultimately show ?thesis by (auto simp: total_balance_eq ledger_sum_zero schema_simps books_ok_def)
qed

theorem interleavings_keep_books_witness:
  "\<exists>S. sys_run sample_pg select_mode crossing (start sample_db) = Some S \<and> total_balance (cdb S) = total_minted (cdb S)"
proof -
  obtain S where S: "sys_run sample_pg select_mode crossing (start sample_db) = Some S"
    "reachable sample_pg select_mode sample_db S" by (rule crossing_run)
  from interleavings_keep_books [OF S(2) sample_store_ok] S(1) show ?thesis by blast
qed

text \<open>
  C6: No deadlock. As long as the requests spell their wallet ids canonically, in every
  reachable state with an unfinished session some unfinished session need not wait and can
  execute its next statement, however many sessions cross each other.
\<close>

theorem no_deadlock:
  assumes "reachable pg select_mode d0 S" and "store_ok d0"
    and "\<forall>s \<in> set (sessions S). canonical_request pg (s_req s)"
    and "i < length (sessions S)" and "active (sessions S ! i)"
  shows "\<exists>j S'. j < length (sessions S) \<and> active (sessions S ! j) \<and> sys_exec pg select_mode (Step j) S = Some S'"
proof -
  from some_session_runs [OF orderly_reachable [OF assms(1-3)] assms(4,5)]
  obtain j where "j < length (sessions S)" "active (sessions S ! j)" "\<not> blocked pg select_mode j S" by blast
  with unblocked_steps show ?thesis by blast
qed

lemma crossing_canonical:
  "map s_req (sessions S) = [sample_req 400, bob_req 100] \<Longrightarrow> \<forall>s \<in> set (sessions S). canonical_request sample_pg (s_req s)"
proof -
  assume "map s_req (sessions S) = [sample_req 400, bob_req 100]"
  then have "s_req ` set (sessions S) = {sample_req 400, bob_req 100}" by (metis list.set_map list.simps(15) list.set(1))
  moreover have "canonical_request sample_pg (sample_req 400)" "canonical_request sample_pg (bob_req 100)"
    by (simp_all add: canonical_request_def bob_req_def)
  ultimately show ?thesis by (metis image_eqI insertE singletonD)
qed

theorem no_deadlock_witness:
  "\<exists>S j S'. sys_run sample_pg select_mode crossing (start sample_db) = Some S \<and>
     sys_exec sample_pg select_mode (Step j) S = Some S'"
proof -
  obtain S where S: "sys_run sample_pg select_mode crossing (start sample_db) = Some S"
    "reachable sample_pg select_mode sample_db S" "map s_phase (sessions S) = [Finished, Commit True]"
    "map s_req (sessions S) = [sample_req 400, bob_req 100]" by (rule crossing_run)
  then have "length (sessions S) = 2" by (metis length_map list.size(3,4) One_nat_def Suc_1 add.right_neutral add_Suc_right)
  moreover have "s_phase (sessions S ! 1) = Commit True"
    using S(3) calculation nth_map [of 1 "sessions S" s_phase] by simp
  then have "active (sessions S ! 1)" by (simp add: active_def)
  ultimately show ?thesis
    using no_deadlock [OF S(2) sample_store_ok crossing_canonical [OF S(4)], of 1] S(1)
    by (simp del: sys_exec.simps) blast
qed

section \<open>All sessions finish\<close>

fun phase_left :: "phase \<Rightarrow> nat" where
  "phase_left Claim = 5"
| "phase_left LockLo = 4"
| "phase_left LockHi = 3"
| "phase_left Decide = 2"
| "phase_left (Commit _) = 1"
| "phase_left Finished = 0"

definition work_left :: "system \<Rightarrow> nat" where
  "work_left S = sum_list (map (\<lambda>s. phase_left (s_phase s)) (sessions S))"

lemma stmt_less_work:
  assumes "active s" and "session_stmt pg s d = (s', d')"
  shows "phase_left (s_phase s') < phase_left (s_phase s)" and "s_req s' = s_req s"
proof -
  have "phase_left (s_phase s') < phase_left (s_phase s) \<and> s_req s' = s_req s"
    using assms
    by (cases "s_phase s")
      (auto simp: session_stmt_def Let_def active_def split: sum.splits option.splits if_splits)
  then show "phase_left (s_phase s') < phase_left (s_phase s)" "s_req s' = s_req s" by blast+
qed

lemma step_less_work:
  assumes "sys_exec pg mode (Step i) S = Some S'"
  shows "work_left S' < work_left S" and "map s_req (sessions S') = map s_req (sessions S)"
proof -
  let ?s = "sessions S ! i"
  from assms have i: "i < length (sessions S)" "active ?s" by (simp_all split: if_splits)
  obtain s' d' where stmt: "session_stmt pg ?s (cdb S) = (s', d')" by fastforce
  with assms i have S': "sessions S' = (sessions S)[i := s']" by (auto split: if_splits)
  note lw = stmt_less_work [OF i(2) stmt]
  show "map s_req (sessions S') = map s_req (sessions S)"
  proof (rule nth_equalityI)
    show "length (map s_req (sessions S')) = length (map s_req (sessions S))" by (simp add: S')
    show "map s_req (sessions S') ! k = map s_req (sessions S) ! k" if "k < length (map s_req (sessions S'))" for k
      using that lw(2) by (cases "k = i") (simp_all add: S')
  qed
  let ?xs = "take i (sessions S)" and ?ys = "drop (Suc i) (sessions S)" and ?w = "\<lambda>s. phase_left (s_phase s)"
  have "work_left S = sum_list (map ?w (?xs @ ?s # ?ys))"
    unfolding work_left_def using id_take_nth_drop [OF i(1)] by simp
  moreover have "work_left S' = sum_list (map ?w (?xs @ s' # ?ys))"
    unfolding work_left_def S' using i(1) by (simp add: upd_conv_take_nth_drop)
  ultimately show "work_left S' < work_left S" using lw(1) by simp
qed

lemma finishing_schedule:
  assumes "reachable pg select_mode d0 S" and "store_ok d0" and "\<forall>s \<in> set (sessions S). canonical_request pg (s_req s)"
  shows "\<exists>is S'. length is \<le> work_left S \<and> sys_run pg select_mode (map Step is) S = Some S' \<and>
    (\<forall>s \<in> set (sessions S'). \<not> active s)"
  using assms
proof (induction "work_left S" arbitrary: S rule: less_induct)
  case less
  show ?case
  proof (cases "\<forall>s \<in> set (sessions S). \<not> active s")
    case True
    then show ?thesis by (intro exI [of _ "[]"]) simp
  next
    case False
    then obtain i where i: "i < length (sessions S)" "active (sessions S ! i)" by (auto simp: in_set_conv_nth)
    from some_session_runs [OF orderly_reachable [OF less.prems] i] obtain j where
      j: "j < length (sessions S)" "active (sessions S ! j)" "\<not> blocked pg select_mode j S" by blast
    from unblocked_steps [OF j] obtain S1 where S1: "sys_exec pg select_mode (Step j) S = Some S1" by blast
    note w = step_less_work [OF S1]
    have "s_req ` set (sessions S1) = s_req ` set (sessions S)" using w(2) by (metis list.set_map)
    then have "\<forall>s \<in> set (sessions S1). canonical_request pg (s_req s)" using less.prems(3) by (metis image_iff)
    from less.hyps [OF w(1) reachable.event [OF less.prems(1) S1] less.prems(2) this] obtain "is" S' where
      r: "length is \<le> work_left S1" "sys_run pg select_mode (map Step is) S1 = Some S'" "\<forall>s \<in> set (sessions S'). \<not> active s"
      by blast
    then show ?thesis using S1 w(1) by (intro exI [of _ "j # is"] exI [of _ S']) simp
  qed
qed

lemma work_left_bound: "work_left S \<le> 5 * length (sessions S)"
proof -
  have "phase_left p \<le> 5" for p by (cases p) simp_all
  then have "sum_list (map (\<lambda>s. phase_left (s_phase s)) ss) \<le> 5 * length ss" for ss
    by (induction ss) (auto intro: add_mono)
  then show ?thesis by (simp add: work_left_def)
qed

text \<open>
  C19: Everybody finishes. From every reachable state with canonically spelled requests there is
  a schedule of at most five statements per session after which every session is done; and no
  schedule of statements without aborts is longer than that.
\<close>

theorem sessions_finish:
  assumes "reachable pg select_mode d0 S" and "store_ok d0" and "\<forall>s \<in> set (sessions S). canonical_request pg (s_req s)"
  shows "(\<exists>is S'. length is \<le> 5 * length (sessions S) \<and> sys_run pg select_mode (map Step is) S = Some S' \<and>
      (\<forall>s \<in> set (sessions S'). \<not> active s)) \<and>
    (\<forall>is S'. sys_run pg select_mode (map Step is) S = Some S' \<longrightarrow> length is \<le> 5 * length (sessions S))"
proof
  show "\<exists>is S'. length is \<le> 5 * length (sessions S) \<and> sys_run pg select_mode (map Step is) S = Some S' \<and>
      (\<forall>s \<in> set (sessions S'). \<not> active s)"
    using finishing_schedule [OF assms] work_left_bound [of S] by (meson le_trans)
  have "length is + work_left S' \<le> work_left S" if "sys_run pg select_mode (map Step is) S = Some S'" for "is" S S'
    using that
  proof (induction "is" arbitrary: S)
    case (Cons i "is")
    then obtain S1 where "sys_exec pg select_mode (Step i) S = Some S1" "sys_run pg select_mode (map Step is) S1 = Some S'"
      by (auto split: option.splits simp del: sys_exec.simps)
    with Cons.IH [OF this(2)] step_less_work(1) [OF this(1)] show ?case by simp
  qed simp
  then show "\<forall>is S'. sys_run pg select_mode (map Step is) S = Some S' \<longrightarrow> length is \<le> 5 * length (sessions S)"
    using work_left_bound [of S] by (meson add_leD1 le_trans)
qed

theorem sessions_finish_witness:
  "\<exists>S is S'. sys_run sample_pg select_mode crossing (start sample_db) = Some S \<and>
     sys_run sample_pg select_mode (map Step is) S = Some S' \<and> (\<forall>s \<in> set (sessions S'). \<not> active s)"
proof -
  obtain S where S: "sys_run sample_pg select_mode crossing (start sample_db) = Some S"
    "reachable sample_pg select_mode sample_db S" "map s_req (sessions S) = [sample_req 400, bob_req 100]" by (rule crossing_run)
  from sessions_finish [OF S(2) sample_store_ok crossing_canonical [OF S(3)]] S(1) show ?thesis by blast
qed

section \<open>Both parts of the discipline are needed\<close>

text \<open>Every session waits for another one.\<close>

definition deadlocked :: "pg \<Rightarrow> lock_mode \<Rightarrow> system \<Rightarrow> bool" where
  "deadlocked pg mode S \<longleftrightarrow>
     sessions S \<noteq> [] \<and>
     list_all (\<lambda>i. active (sessions S ! i) \<and> blocked pg mode i S) [0..<length (sessions S)]"

text \<open>
  With \<open>FOR UPDATE\<close> instead, the order of the locks does not help: two transfers that cross
  each other, with canonical ids, reach a state in which each waits for the foreign-key lock of
  the other and neither can go on.
\<close>

theorem for_update_deadlocks:
  "\<exists>S. reachable sample_pg ForUpdate sample_db S \<and>
     list_all (\<lambda>s. canonical_request sample_pg (s_req s)) (sessions S) \<and> deadlocked sample_pg ForUpdate S"
proof -
  let ?es = "[Arrive (sample_req 400) transfer_1 9, Arrive (bob_req 100) transfer_2 9, Step 0, Step 1]"
  have "case sys_run sample_pg ForUpdate ?es (start sample_db) of
      Some S \<Rightarrow> map s_req (sessions S) = [sample_req 400, bob_req 100] \<and> deadlocked sample_pg ForUpdate S
    | None \<Rightarrow> False" by code_simp
  then obtain S where S: "sys_run sample_pg ForUpdate ?es (start sample_db) = Some S"
    "map s_req (sessions S) = [sample_req 400, bob_req 100]" "deadlocked sample_pg ForUpdate S"
    by (auto split: option.splits)
  from sys_run_reachable [OF reachable.initial S(1)] crossing_canonical [OF S(2)] S(3) show ?thesis
    by (auto simp: list_all_iff)
qed

text \<open>Steps of two sessions, each in its own transaction.\<close>

lemma pair_blocked:
  assumes "sessions S = [x, y]"
  shows "blocked pg select_mode 0 S \<longleftrightarrow> (\<exists>r. s_wants pg x = Some r \<and> r \<in> s_holds pg y)"
    and "blocked pg select_mode (Suc 0) S \<longleftrightarrow> (\<exists>r. s_wants pg y = Some r \<and> r \<in> s_holds pg x)"
  using assms by (auto simp: blocked_def select_mode_def waits_for_iff upt_rec [of 0] upt_rec [of 1])

lemma claim_stmt:
  assumes "s_phase s = Claim" and "s_ready pg s d"
  shows "session_stmt pg s d = (s\<lparr>s_phase := LockLo\<rparr>, d)"
proof -
  from assms(2) have "bound_request pg (s_req s) (s_uid pg s) (s_from pg s) (s_to pg s)" by (simp add: claimable_def)
  from claim_key_sql_eq [OF this, of "s_env s" 0 d] claimable_insert [OF assms(2)] assms(1) show ?thesis
    by (simp add: session_stmt_def Let_def)
qed

lemma lock_lo_stmt:
  assumes "s_phase s = LockLo" and "bind_uuid pg (lo_text s) = Inr x" and "x \<in> set (wallet_ids d)"
  obtains m where "session_stmt pg s d = (s\<lparr>s_seen := m, s_phase := LockHi\<rparr>, d)"
proof -
  from assms(3) have "find (\<lambda>w. w_id w = x) (wallets d) \<noteq> None" by (auto simp: wallet_ids_iff find_None_iff)
  then obtain w where "find (\<lambda>w. w_id w = x) (wallets d) = Some w" by blast
  with assms(1,2) that show ?thesis by (simp add: session_stmt_def Let_def select_wallet_def)
qed

lemma ready_of_claimable:
  assumes "claimable pg (quiet now u) req uid f t d"
  shows "s_ready pg \<lparr>s_req = req, s_new = u, s_now = now, s_phase = ph, s_seen = m, s_writes = v\<rparr> d"
    and "s_uid pg \<lparr>s_req = req, s_new = u, s_now = now, s_phase = ph, s_seen = m, s_writes = v\<rparr> = uid"
    and "bid pg (rq_FromWalletID req) = f" and "bid pg (rq_ToWalletID req) = t"
  using assms by (auto simp: claimable_def bound_request_def s_uid_def s_from_def s_to_def bid_def)

text \<open>Two acceptable requests with different keys get past their inserts, one after the other.\<close>

abbreviation arrived :: "TransferRequest \<Rightarrow> uuid \<Rightarrow> time \<Rightarrow> phase \<Rightarrow> session" where
  "arrived req u now ph \<equiv>
     \<lparr>s_req = req, s_new = u, s_now = now, s_phase = ph, s_seen = Map.empty, s_writes = Map.empty\<rparr>"

lemma two_claimed:
  assumes "claimable pg (quiet now u1) r1 uid f t d" and "claimable pg (quiet now u2) r2 uid f t d" and "u1 \<noteq> u2"
    and "rq_IdempotencyKey r1 \<noteq> rq_IdempotencyKey r2"
  shows "sys_run pg select_mode ([Arrive r1 u1 now, Arrive r2 u2 now, Step 0, Step 1] @ es) (start d) =
    sys_run pg select_mode es \<lparr>cdb = d, sessions = [arrived r1 u1 now LockLo, arrived r2 u2 now LockLo]\<rparr>"
proof -
  have new: "u1 \<notin> set (transfer_ids d)" "u2 \<notin> set (transfer_ids d)" using assms(1,2) by (simp_all add: claimable_def)
  have a1: "sys_exec pg select_mode (Arrive r1 u1 now) (start d) = Some \<lparr>cdb = d, sessions = [arrived r1 u1 now Claim]\<rparr>"
    using new(1) by (simp add: start_def fresh_id_def)
  have a2: "sys_exec pg select_mode (Arrive r2 u2 now) \<lparr>cdb = d, sessions = [arrived r1 u1 now Claim]\<rparr> =
      Some \<lparr>cdb = d, sessions = [arrived r1 u1 now Claim, arrived r2 u2 now Claim]\<rparr>"
    using new(2) assms(3) by (simp add: fresh_id_def)
  have "\<not> blocked pg select_mode 0 \<lparr>cdb = d, sessions = [arrived r1 u1 now Claim, arrived r2 u2 now Claim]\<rparr>"
    by (simp add: pair_blocked(1) [OF system.select_convs(2)] s_holds_def claimed_def rows_locked_def)
  then have c1: "sys_exec pg select_mode (Step 0) \<lparr>cdb = d, sessions = [arrived r1 u1 now Claim, arrived r2 u2 now Claim]\<rparr> =
      Some \<lparr>cdb = d, sessions = [arrived r1 u1 now LockLo, arrived r2 u2 now Claim]\<rparr>"
    using claim_stmt [OF _ ready_of_claimable(1) [OF assms(1)]] by (simp add: active_def)
  have "\<not> blocked pg select_mode 1 \<lparr>cdb = d, sessions = [arrived r1 u1 now LockLo, arrived r2 u2 now Claim]\<rparr>"
    using assms(4) by (simp add: pair_blocked(2) [OF system.select_convs(2)] s_wants_def s_holds_def claimed_def rows_locked_def s_key_def)
  then have c2: "sys_exec pg select_mode (Step 1) \<lparr>cdb = d, sessions = [arrived r1 u1 now LockLo, arrived r2 u2 now Claim]\<rparr> =
      Some \<lparr>cdb = d, sessions = [arrived r1 u1 now LockLo, arrived r2 u2 now LockLo]\<rparr>"
    using claim_stmt [OF _ ready_of_claimable(1) [OF assms(2)]] by (simp add: active_def)
  show ?thesis using a1 a2 c1 c2 by (simp del: sys_exec.simps One_nat_def)
qed

text \<open>
  C40: The order of the locks is the order of the texts in the requests, and the sort does not
  help when a wallet is spelled in two ways. Take two acceptable requests with different keys that
  move money from the same wallet to the same wallet, where the second spells the destination so
  that its text sorts before that of the source and the first so that it sorts after it. Then each
  takes its first lock and they reach a state in which each waits for a row of the other. With
  the spelling of the first request in both, the same schedule is not possible: the second has to
  wait for its first lock.
\<close>

theorem respelled_locks_deadlock:
  assumes "claimable pg (quiet now u1) r1 uid f t d" and "claimable pg (quiet now u2) r2 uid f t d" and "u1 \<noteq> u2"
    and "rq_IdempotencyKey r1 \<noteq> rq_IdempotencyKey r2" and "rq_FromWalletID r2 = rq_FromWalletID r1"
    and "rq_ToWalletID r2 < rq_FromWalletID r1" and "rq_FromWalletID r1 < rq_ToWalletID r1"
  shows "(\<exists>S. sys_run pg select_mode
        [Arrive r1 u1 now, Arrive r2 u2 now, Step 0, Step 1, Step 0, Step 1] (start d) = Some S \<and>
      map s_req (sessions S) = [r1, r2] \<and> deadlocked pg select_mode S) \<and>
    sys_run pg select_mode
      [Arrive r1 u1 now, Arrive (r2\<lparr>rq_ToWalletID := rq_ToWalletID r1\<rparr>) u2 now, Step 0, Step 1, Step 0, Step 1] (start d) = None"
proof -
  let ?a = "rq_FromWalletID r1" and ?b = "rq_ToWalletID r1" and ?b' = "rq_ToWalletID r2"
  let ?c = "r2\<lparr>rq_ToWalletID := ?b\<rparr>"
  from assms(1,2) have ids: "bind_uuid pg ?a = Inr f" "bind_uuid pg ?b = Inr t" "bind_uuid pg ?b' = Inr t" "f \<noteq> t"
    "f \<in> set (wallet_ids d)" "t \<in> set (wallet_ids d)" by (simp_all add: claimable_def bound_request_def)
  have c: "claimable pg (quiet now u2) ?c uid f t d" using assms(1,2) by (simp add: claimable_def bound_request_def)
  let ?x = "arrived r1 u1 now LockLo" and ?y = "arrived r2 u2 now LockLo" and ?z = "arrived ?c u2 now LockLo"
  have order: "lo_text ?x = ?a" "hi_text ?x = ?b" "lo_text ?y = ?b'" "hi_text ?y = ?a" "lo_text ?z = ?a"
    using assms(5-7) by (auto simp: lo_text_def hi_text_def lock_order_def)
  from lock_lo_stmt [of ?x pg f d] ids order obtain m where m: "session_stmt pg ?x d = (?x\<lparr>s_seen := m, s_phase := LockHi\<rparr>, d)" by auto
  from lock_lo_stmt [of ?y pg t d] ids order obtain m' where m': "session_stmt pg ?y d = (?y\<lparr>s_seen := m', s_phase := LockHi\<rparr>, d)" by auto
  let ?x1 = "?x\<lparr>s_seen := m, s_phase := LockHi\<rparr>" and ?y1 = "?y\<lparr>s_seen := m', s_phase := LockHi\<rparr>"
  have texts: "lo_text ?x1 = ?a" "hi_text ?x1 = ?b" "lo_text ?y1 = ?b'" "hi_text ?y1 = ?a"
    using order by (simp_all add: lo_text_def hi_text_def)
  note ws = s_wants_def s_holds_def claimed_def rows_locked_def order texts [simplified] bid_def ids
  have first: "sys_exec pg select_mode (Step 0) \<lparr>cdb = d, sessions = [?x, w]\<rparr> = Some \<lparr>cdb = d, sessions = [?x1, w]\<rparr>"
    if "s_phase w = LockLo" for w
  proof -
    have "\<not> blocked pg select_mode 0 \<lparr>cdb = d, sessions = [?x, w]\<rparr>"
      using that by (auto simp: pair_blocked(1) [OF system.select_convs(2)] ws split: if_splits)
    then show ?thesis using m by (simp add: active_def)
  qed
  have "\<not> blocked pg select_mode 1 \<lparr>cdb = d, sessions = [?x1, ?y]\<rparr>"
    by (simp add: pair_blocked(2) [OF system.select_convs(2)] ws) (use ids(4) in auto)
  then have second: "sys_exec pg select_mode (Step 1) \<lparr>cdb = d, sessions = [?x1, ?y]\<rparr> = Some \<lparr>cdb = d, sessions = [?x1, ?y1]\<rparr>"
    using m' by (simp add: active_def)
  let ?S = "\<lparr>cdb = d, sessions = [?x1, ?y1]\<rparr>"
  have "blocked pg select_mode 0 ?S" "blocked pg select_mode 1 ?S"
    by (simp_all add: pair_blocked [OF system.select_convs(2)] ws)
  then have "deadlocked pg select_mode ?S"
    by (simp add: deadlocked_def active_def upt_rec [of 0] upt_rec [of 1])
  moreover have "sys_run pg select_mode [Arrive r1 u1 now, Arrive r2 u2 now, Step 0, Step 1, Step 0, Step 1] (start d) = Some ?S"
    using two_claimed [OF assms(1-4), of "[Step 0, Step 1]"] first [of ?y] second
    by (simp del: sys_exec.simps One_nat_def)
  moreover have "sys_exec pg select_mode (Step 1) \<lparr>cdb = d, sessions = [?x1, ?z]\<rparr> = None"
  proof -
    have "blocked pg select_mode 1 \<lparr>cdb = d, sessions = [?x1, ?z]\<rparr>"
      by (simp add: pair_blocked(2) [OF system.select_convs(2)] ws)
    then show ?thesis by simp
  qed
  then have "sys_run pg select_mode [Arrive r1 u1 now, Arrive ?c u2 now, Step 0, Step 1, Step 0, Step 1] (start d) = None"
    using two_claimed [OF assms(1) c assms(3), of "[Step 0, Step 1]"] assms(4) first [of ?z]
    by (simp del: sys_exec.simps One_nat_def)
  ultimately show ?thesis by auto
qed

theorem respelled_locks_deadlock_witness:
  "\<exists>S. sys_run sample_pg select_mode
       [Arrive (sample_req 400) transfer_1 9,
        Arrive ((sample_req 100)\<lparr>rq_ToWalletID := ''00000000-0000-0000-0000-00000000000B'', rq_IdempotencyKey := ''order-3''\<rparr>) transfer_2 9,
        Step 0, Step 1, Step 0, Step 1] (start sample_db) = Some S \<and> deadlocked sample_pg select_mode S"
proof -
  let ?r = "(sample_req 100)\<lparr>rq_ToWalletID := ''00000000-0000-0000-0000-00000000000B'', rq_IdempotencyKey := ''order-3''\<rparr>"
  have 1: "claimable sample_pg (quiet 9 transfer_1) (sample_req 400) alice wallet_a wallet_b sample_db" by code_simp
  have 2: "claimable sample_pg (quiet 9 transfer_2) ?r alice wallet_a wallet_b sample_db" by code_simp
  have 3: "transfer_1 \<noteq> transfer_2" by code_simp
  have 4: "rq_IdempotencyKey (sample_req 400) \<noteq> rq_IdempotencyKey ?r" by code_simp
  have 5: "rq_FromWalletID ?r = rq_FromWalletID (sample_req 400)" by code_simp
  have 6: "rq_ToWalletID ?r < rq_FromWalletID (sample_req 400)" by code_simp
  have 7: "rq_FromWalletID (sample_req 400) < rq_ToWalletID (sample_req 400)" by code_simp
  from respelled_locks_deadlock [OF 1 2 3 4 5 6 7] show ?thesis by blast
qed

end
