(* ===== verification/Log_Ring.thy ===== *)
theory Log_Ring
  imports Wallet_Prelude
begin

text \<open>
  Package \<open>obs\<close>, file \<open>log.go\<close>: the ring buffer of recent log lines and its fan-out to live
  subscribers. The ring itself is sequential, since every access holds its mutex; the sends of
  \<open>Write\<close> happen after the mutex is released, so their interleaving with \<open>Subscribe\<close> and its
  cancel function is a step relation over the ring, the channels and the writers in flight.
  The interface of a bounded log is a locale, instantiated with the ring.
\<close>

section \<open>Interface: a log that keeps the last lines\<close>

definition lastn :: "nat \<Rightarrow> 'a list \<Rightarrow> 'a list" where
  "lastn n xs = drop (length xs - n) xs"

lemma lastn_lastn: "lastn n (lastn n xs @ ys) = lastn n (xs @ ys)"
  by (cases "n \<le> length xs") (simp_all add: lastn_def add.commute)

lemma lastn_nth: "i < n \<Longrightarrow> n \<le> length xs \<Longrightarrow> lastn n xs ! i = xs ! (length xs - n + i)"
  by (simp add: lastn_def)

lemma length_lastn [simp]: "length (lastn n xs) = min n (length xs)"
  by (simp add: lastn_def)

locale bounded_log =
  fixes ok :: "'s \<Rightarrow> bool" and capacity :: "'s \<Rightarrow> nat" and lines :: "'s \<Rightarrow> 'a list" and push :: "'a \<Rightarrow> 's \<Rightarrow> 's"
  assumes push_ok: "ok s \<Longrightarrow> ok (push x s)"
    and push_capacity: "ok s \<Longrightarrow> capacity (push x s) = capacity s"
    and push_lines: "ok s \<Longrightarrow> lines (push x s) = lastn (capacity s) (lines s @ [x])"
    and fits: "ok s \<Longrightarrow> length (lines s) \<le> capacity s"
begin

lemma pushes_ok: "ok s \<Longrightarrow> ok (fold push xs s) \<and> capacity (fold push xs s) = capacity s"
  by (induction xs arbitrary: s) (simp_all add: push_ok push_capacity)

lemma pushes_lines: "ok s \<Longrightarrow> lines (fold push xs s) = lastn (capacity s) (lines s @ xs)"
proof (induction xs arbitrary: s)
  case Nil
  then show ?case using fits [OF Nil] by (simp add: lastn_def)
next
  case (Cons x xs)
  have "lines (fold push (x # xs) s) = lastn (capacity s) (lines (push x s) @ xs)"
    using Cons.IH [OF push_ok [OF Cons.prems]] push_capacity [OF Cons.prems] by simp
  also have "\<dots> = lastn (capacity s) (lines s @ x # xs)"
    unfolding push_lines [OF Cons.prems] lastn_lastn by simp
  finally show ?case .
qed

end

section \<open>The ring\<close>

record Ring =
  buf :: "bytes list"
  size_of :: nat
  next_slot :: nat
  line_count :: nat
  subs :: "nat list"

text \<open>Go's \<open>%\<close> truncates towards zero.\<close>

definition go_rem :: "int \<Rightarrow> int \<Rightarrow> int" where
  "go_rem a b = (if a < 0 then - ((- a) mod b) else a mod b)"

definition NewRing :: "int \<Rightarrow> Ring" where
  "NewRing sz =
     (let n = (if sz \<le> 0 then 1 else nat sz) in
      \<lparr>buf = replicate n [], size_of = n, next_slot = 0, line_count = 0, subs = []\<rparr>)"

text \<open>The part of \<open>Write\<close> that holds the mutex.\<close>

definition ring_push :: "bytes \<Rightarrow> Ring \<Rightarrow> Ring" where
  "ring_push line r =
     r\<lparr>buf := (buf r)[next_slot r := line],
       next_slot := (next_slot r + 1) mod size_of r,
       line_count := (if line_count r < size_of r then line_count r + 1 else line_count r)\<rparr>"

text \<open>The registration of a channel and its removal; \<open>new_chan\<close> names a channel that is not registered.\<close>

definition ring_add :: "nat \<Rightarrow> Ring \<Rightarrow> Ring" where
  "ring_add c r = r\<lparr>subs := subs r @ [c]\<rparr>"

definition ring_delete :: "nat \<Rightarrow> Ring \<Rightarrow> Ring" where
  "ring_delete c r = r\<lparr>subs := remove1 c (subs r)\<rparr>"

definition new_chan :: "Ring \<Rightarrow> nat" where
  "new_chan r = Suc (fold max (subs r) 0)"

definition Snapshot :: "int \<Rightarrow> Ring \<Rightarrow> bytes list" where
  "Snapshot n r =
     (let n = (if n \<le> 0 \<or> n > int (line_count r) then int (line_count r) else n);
          sz = int (size_of r);
          start = go_rem (go_rem (int (next_slot r) - n) sz + sz) sz
      in map (\<lambda>i. buf r ! nat (go_rem (start + int i) sz)) [0..<nat n])"

definition Subscribers :: "Ring \<Rightarrow> nat" where
  "Subscribers r = length (subs r)"

section \<open>Lemmas: the ring is a bounded log\<close>

definition ring_ok :: "Ring \<Rightarrow> bool" where
  "ring_ok r \<longleftrightarrow>
     0 < size_of r \<and> length (buf r) = size_of r \<and> next_slot r < size_of r \<and> line_count r \<le> size_of r \<and>
     (line_count r < size_of r \<longrightarrow> next_slot r = line_count r) \<and> distinct (subs r)"

text \<open>The retained lines, oldest first.\<close>

definition ring_lines :: "Ring \<Rightarrow> bytes list" where
  "ring_lines r =
     (if line_count r < size_of r then take (line_count r) (buf r)
      else drop (next_slot r) (buf r) @ take (next_slot r) (buf r))"

lemma ring_ok_new: "ring_ok (NewRing sz)"
  by (simp add: ring_ok_def NewRing_def Let_def)

lemma ring_lines_new [simp]: "ring_lines (NewRing sz) = []"
  by (simp add: ring_lines_def NewRing_def Let_def)

lemma length_ring_lines [simp]: "ring_ok r \<Longrightarrow> length (ring_lines r) = line_count r"
  by (auto simp: ring_ok_def ring_lines_def)

lemma ring_push_ok: "ring_ok r \<Longrightarrow> ring_ok (ring_push x r)"
  by (auto simp: ring_ok_def ring_push_def mod_if)

lemma ring_lines_nth:
  assumes "ring_ok r" and "i < line_count r"
  shows "ring_lines r ! i = buf r ! ((next_slot r + size_of r - line_count r + i) mod size_of r)"
proof (cases "line_count r < size_of r")
  case True
  with assms have "next_slot r = line_count r" "i < size_of r" by (auto simp: ring_ok_def)
  with True assms show ?thesis by (simp add: ring_lines_def)
next
  case False
  with assms have c: "line_count r = size_of r" "length (buf r) = size_of r" "next_slot r < size_of r"
    by (auto simp: ring_ok_def)
  show ?thesis
  proof (cases "next_slot r + i < size_of r")
    case True
    then have "i < size_of r - next_slot r" by simp
    with True False assms c show ?thesis by (simp add: ring_lines_def nth_append)
  next
    case wrapped: False
    then have "(next_slot r + i) mod size_of r = next_slot r + i - size_of r"
      using assms(2) c by (simp add: mod_if)
    moreover from wrapped have "\<not> i < size_of r - next_slot r" by simp
    moreover have "i + next_slot r - size_of r < next_slot r" using wrapped assms(2) c by linarith
    ultimately show ?thesis using False c by (simp add: ring_lines_def nth_append add.commute)
  qed
qed

lemma ring_push_lines:
  assumes "ring_ok r"
  shows "ring_lines (ring_push x r) = lastn (size_of r) (ring_lines r @ [x])"
proof (cases "line_count r < size_of r")
  case True
  with assms have n: "next_slot r = line_count r" "length (buf r) = size_of r" by (auto simp: ring_ok_def)
  show ?thesis
  proof (cases "line_count r + 1 < size_of r")
    case True
    with assms n show ?thesis
      by (simp add: ring_lines_def ring_push_def lastn_def take_Suc_conv_app_nth)
  next
    case False
    with True n have c: "size_of r = Suc (line_count r)" "length (buf r) = Suc (line_count r)" by simp_all
    then have "(buf r)[line_count r := x] = take (line_count r) (buf r) @ [x]"
      by (simp add: upd_conv_take_nth_drop)
    with c n(1) show ?thesis
      by (simp add: ring_lines_def ring_push_def lastn_def)
  qed
next
  case False
  with assms have c: "line_count r = size_of r" "length (buf r) = size_of r" "next_slot r < size_of r" "0 < size_of r"
    by (auto simp: ring_ok_def)
  have tl: "lastn (size_of r) (ring_lines r @ [x]) = tl (ring_lines r) @ [x]"
    using assms c by (simp add: lastn_def drop_Suc)
  have d: "drop (next_slot r) (buf r) = buf r ! next_slot r # drop (Suc (next_slot r)) (buf r)"
    using c by (simp add: Cons_nth_drop_Suc)
  show ?thesis
  proof (cases "Suc (next_slot r) = size_of r")
    case True
    with c have "drop (Suc (next_slot r)) (buf r) = []" by simp
    with c(2,3) have "(buf r)[next_slot r := x] = take (next_slot r) (buf r) @ [x]"
      by (simp add: upd_conv_take_nth_drop)
    with True c(1) \<open>drop (Suc (next_slot r)) (buf r) = []\<close> show ?thesis unfolding tl
      by (simp add: ring_lines_def ring_push_def d)
  next
    case False
    with c show ?thesis unfolding tl
      by (simp add: ring_lines_def ring_push_def d take_Suc_conv_app_nth)
  qed
qed

interpretation rl: bounded_log ring_ok size_of ring_lines ring_push
proof
  show "ring_ok s \<Longrightarrow> ring_ok (ring_push x s)" for s x by (rule ring_push_ok)
  show "ring_ok s \<Longrightarrow> size_of (ring_push x s) = size_of s" for s x by (simp add: ring_push_def)
  show "ring_ok s \<Longrightarrow> ring_lines (ring_push x s) = lastn (size_of s) (ring_lines s @ [x])" for s x
    by (rule ring_push_lines)
  show "ring_ok s \<Longrightarrow> length (ring_lines s) \<le> size_of s" for s
    by (simp add: ring_ok_def)
qed

lemma go_rem_nonneg: "0 \<le> a \<Longrightarrow> go_rem a b = a mod b"
  by (simp add: go_rem_def)

lemma go_rem_wrap:
  assumes "0 < b"
  shows "go_rem (go_rem a b + b) b = a mod b"
proof (cases "a < 0")
  case True
  define x where "x = (- a) mod b"
  have "x < b" using assms by (simp add: x_def)
  then have "go_rem (b - x) b = (b - x) mod b" by (intro go_rem_nonneg) simp
  also have "\<dots> = (b - (- a)) mod b" unfolding x_def by (rule mod_diff_right_eq)
  also have "\<dots> = a mod b" by simp
  finally show ?thesis using True by (simp add: go_rem_def [of a] x_def)
next
  case False
  with assms show ?thesis by (simp add: go_rem_nonneg)
qed

lemma Snapshot_lines:
  assumes "ring_ok r"
  shows "Snapshot n r =
    lastn (if n \<le> 0 \<or> n > int (line_count r) then line_count r else nat n) (ring_lines r)"
proof -
  define k where "k = (if n \<le> 0 \<or> n > int (line_count r) then line_count r else nat n)"
  have k: "k \<le> line_count r" and ik: "(if n \<le> 0 \<or> n > int (line_count r) then int (line_count r) else n) = int k"
    by (auto simp: k_def)
  from assms have s: "0 < size_of r" "k \<le> size_of r" "line_count r \<le> size_of r"
    using k by (auto simp: ring_ok_def)
  have slot: "nat (go_rem (go_rem (go_rem (int (next_slot r) - int k) (int (size_of r)) + int (size_of r)) (int (size_of r)) + int i)
      (int (size_of r))) = (next_slot r + size_of r - k + i) mod size_of r" for i
  proof -
    let ?s = "int (size_of r)"
    have "0 \<le> (int (next_slot r) - int k) mod ?s + int i" using s by simp
    from go_rem_nonneg [OF this] have "go_rem (go_rem (go_rem (int (next_slot r) - int k) ?s + ?s) ?s + int i) ?s =
        ((int (next_slot r) - int k) mod ?s + int i) mod ?s"
      using s by (subst go_rem_wrap) simp_all
    also have "\<dots> = (int (next_slot r) - int k + int i) mod ?s" by (simp add: mod_simps)
    also have "\<dots> = (int (next_slot r) - int k + int i + ?s) mod ?s" by simp
    also have "\<dots> = int ((next_slot r + size_of r - k + i) mod size_of r)"
      using s by (simp add: of_nat_mod algebra_simps of_nat_diff)
    finally show ?thesis by simp
  qed
  have snap: "Snapshot n r = map (\<lambda>i. buf r ! ((next_slot r + size_of r - k + i) mod size_of r)) [0..<k]"
    unfolding Snapshot_def Let_def ik slot by simp
  show ?thesis
    unfolding snap k_def [symmetric]
  proof (rule nth_equalityI)
    show "length (map (\<lambda>i. buf r ! ((next_slot r + size_of r - k + i) mod size_of r)) [0..<k]) = length (lastn k (ring_lines r))"
      using assms k by simp
    fix i
    assume "i < length (map (\<lambda>i. buf r ! ((next_slot r + size_of r - k + i) mod size_of r)) [0..<k])"
    then have i: "i < k" by simp
    have "next_slot r + size_of r - line_count r + (line_count r - k + i) = next_slot r + size_of r - k + i"
      using k s by simp
    with i k assms ring_lines_nth [OF assms, of "line_count r - k + i"]
    show "map (\<lambda>i. buf r ! ((next_slot r + size_of r - k + i) mod size_of r)) [0..<k] ! i = lastn k (ring_lines r) ! i"
      by (simp add: lastn_nth)
  qed
qed

text \<open>A subscription that is cancelled leaves the ring as it was.\<close>

lemma fold_max_le: "x \<in> set xs \<Longrightarrow> x \<le> fold max xs (a :: nat)"
proof (induction xs arbitrary: a)
  case (Cons y xs)
  have "b \<le> fold max xs b" for b :: nat
    by (induction xs arbitrary: b) (simp, metis fold_simps(2) max.bounded_iff max.commute)
  with Cons show ?case by (auto intro: le_trans [OF max.cobounded1])
qed simp

lemma ring_add_delete [simp]: "ring_delete (new_chan r) (ring_add (new_chan r) r) = r"
  using fold_max_le [of "new_chan r" "subs r" 0]
  by (auto simp: ring_delete_def ring_add_def new_chan_def remove1_append)

lemma ring_add_lines [simp]: "Snapshot n (ring_add c r) = Snapshot n r"
  by (simp add: Snapshot_def ring_add_def)

section \<open>Channels and concurrent writers\<close>

text \<open>A buffered channel: the lines waiting in it, and whether it was closed.\<close>

record chan =
  queue :: "bytes list"
  closed :: bool

definition chan_cap :: nat where
  "chan_cap = 256"

text \<open>
  \<open>select { case c <- line: default: }\<close>: a send on a closed channel panics (\<open>None\<close>), also in a
  \<open>select\<close>; a full buffer takes the default branch.
\<close>

definition try_send :: "bytes \<Rightarrow> chan \<Rightarrow> chan option" where
  "try_send line c =
     (if closed c then None
      else if length (queue c) < chan_cap then Some (c\<lparr>queue := queue c @ [line]\<rparr>)
      else Some c)"

text \<open>A call of \<open>Write\<close> that has released the mutex: its line and the channels it has yet to serve.\<close>

record writer =
  w_line :: bytes
  w_pending :: "nat list"

text \<open>A channel is named by its index in \<open>chans\<close>; \<open>panics\<close> counts writers that panicked.\<close>

record log_world =
  ring :: Ring
  chans :: "chan list"
  writers :: "writer list"
  panics :: nat

definition new_world :: "int \<Rightarrow> log_world" where
  "new_world sz = \<lparr>ring = NewRing sz, chans = [], writers = [], panics = 0\<rparr>"

text \<open>\<open>Write\<close> under the mutex. \<open>order\<close> is the order in which Go happens to iterate over the map.\<close>

definition Write_locked :: "bytes \<Rightarrow> nat list \<Rightarrow> log_world \<Rightarrow> log_world option" where
  "Write_locked p order w =
     (if distinct order \<and> set order = set (subs (ring w))
      then Some (w\<lparr>ring := ring_push p (ring w), writers := writers w @ [\<lparr>w_line = p, w_pending = order\<rparr>]\<rparr>)
      else None)"

text \<open>One iteration of the loop after the mutex, by the writer number \<open>k\<close>.\<close>

definition Write_send :: "nat \<Rightarrow> log_world \<Rightarrow> log_world option" where
  "Write_send k w =
     (if k < length (writers w) then
        (case w_pending (writers w ! k) of
           [] \<Rightarrow> None
         | c # cs \<Rightarrow>
             if c < length (chans w) then
               (case try_send (w_line (writers w ! k)) (chans w ! c) of
                  None \<Rightarrow> Some (w\<lparr>writers := (writers w)[k := (writers w ! k)\<lparr>w_pending := []\<rparr>], panics := panics w + 1\<rparr>)
                | Some ch \<Rightarrow>
                    Some (w\<lparr>chans := (chans w)[c := ch],
                            writers := (writers w)[k := (writers w ! k)\<lparr>w_pending := cs\<rparr>]\<rparr>))
             else None)
      else None)"

definition Subscribe :: "log_world \<Rightarrow> log_world" where
  "Subscribe w =
     w\<lparr>chans := chans w @ [\<lparr>queue = [], closed = False\<rparr>], ring := ring_add (length (chans w)) (ring w)\<rparr>"

text \<open>The cancel function returned by \<open>Subscribe\<close>.\<close>

definition cancel :: "nat \<Rightarrow> log_world \<Rightarrow> log_world" where
  "cancel c w =
     (if c \<in> set (subs (ring w))
      then w\<lparr>ring := ring_delete c (ring w),
             chans := (chans w)[c := (chans w ! c)\<lparr>closed := True\<rparr>]\<rparr>
      else w)"

text \<open>The subscriber takes the next line.\<close>

definition receive :: "nat \<Rightarrow> log_world \<Rightarrow> log_world option" where
  "receive c w =
     (if c < length (chans w) \<and> queue (chans w ! c) \<noteq> []
      then Some (w\<lparr>chans := (chans w)[c := (chans w ! c)\<lparr>queue := tl (queue (chans w ! c))\<rparr>]\<rparr>)
      else None)"

datatype log_event = LWrite bytes "nat list" | LSend nat | LSubscribe | LCancel nat | LReceive nat

fun log_exec :: "log_event \<Rightarrow> log_world \<Rightarrow> log_world option" where
  "log_exec (LWrite p order) w = Write_locked p order w"
| "log_exec (LSend k) w = Write_send k w"
| "log_exec LSubscribe w = Some (Subscribe w)"
| "log_exec (LCancel c) w = Some (cancel c w)"
| "log_exec (LReceive c) w = receive c w"

fun log_run :: "log_event list \<Rightarrow> log_world \<Rightarrow> log_world option" where
  "log_run [] w = Some w"
| "log_run (e # es) w = (case log_exec e w of None \<Rightarrow> None | Some w' \<Rightarrow> log_run es w')"

inductive log_reachable :: "int \<Rightarrow> log_world \<Rightarrow> bool" for sz where
  start: "log_reachable sz (new_world sz)"
| step: "log_reachable sz w \<Longrightarrow> log_exec e w = Some w' \<Longrightarrow> log_reachable sz w'"

section \<open>Lemmas: every interleaving keeps the log well formed\<close>

definition world_ok :: "log_world \<Rightarrow> bool" where
  "world_ok w \<longleftrightarrow>
     ring_ok (ring w) \<and> (\<forall>c \<in> set (chans w). length (queue c) \<le> chan_cap) \<and>
     set (subs (ring w)) = {c. c < length (chans w) \<and> \<not> closed (chans w ! c)} \<and>
     (\<forall>x \<in> set (writers w). \<forall>c \<in> set (w_pending x). c < length (chans w))"

lemma ring_ok_subs:
  "ring_ok r \<Longrightarrow> distinct cs \<Longrightarrow> ring_ok (r\<lparr>subs := cs\<rparr>)" "subs (ring_push p r) = subs r"
  by (simp_all add: ring_ok_def ring_push_def)

lemma world_ok_new: "world_ok (new_world sz)"
  by (simp add: world_ok_def new_world_def ring_ok_new) (simp add: NewRing_def Let_def)

lemma Write_locked_ok: "world_ok w \<Longrightarrow> Write_locked p order w = Some w' \<Longrightarrow> world_ok w'"
  by (auto simp: world_ok_def Write_locked_def ring_push_ok ring_ok_subs split: if_splits)

lemma try_send_Some: "try_send line c = Some c' \<Longrightarrow> length (queue c) \<le> chan_cap \<Longrightarrow>
    \<not> closed c \<and> \<not> closed c' \<and> length (queue c') \<le> chan_cap"
  by (auto simp: try_send_def split: if_splits)

lemma Write_send_ok:
  assumes "world_ok w" and "Write_send k w = Some w'"
  shows "world_ok w'"
proof -
  let ?x = "writers w ! k"
  from assms(2) obtain c cs where k: "k < length (writers w)" "w_pending ?x = c # cs" "c < length (chans w)"
    by (auto simp: Write_send_def split: if_splits list.splits)
  have x: "?x \<in> set (writers w)" using k(1) by simp
  have pend: "\<forall>y \<in> set ((writers w)[k := ?x\<lparr>w_pending := ds\<rparr>]). \<forall>c \<in> set (w_pending y). c < length (chans w)"
    if "set ds \<subseteq> set (c # cs)" for ds
    using assms(1) that k(2) x by (auto simp: world_ok_def dest!: set_update_subset_insert [THEN subsetD])
  show ?thesis
  proof (cases "try_send (w_line ?x) (chans w ! c)")
    case None
    with assms k pend [of "[]"] show ?thesis by (auto simp: Write_send_def world_ok_def)
  next
    case (Some ch)
    then have ch: "\<not> closed (chans w ! c)" "\<not> closed ch" "length (queue ch) \<le> chan_cap"
      using try_send_Some [OF Some] assms(1) k(3) by (auto simp: world_ok_def)
    have "w' = w\<lparr>chans := (chans w)[c := ch], writers := (writers w)[k := ?x\<lparr>w_pending := cs\<rparr>]\<rparr>"
      using assms(2) k Some by (simp add: Write_send_def)
    moreover have "\<forall>y \<in> set ((writers w)[k := ?x\<lparr>w_pending := cs\<rparr>]). \<forall>c \<in> set (w_pending y). c < length (chans w)"
      by (rule pend) auto
    moreover have "\<forall>d \<in> set ((chans w)[c := ch]). length (queue d) \<le> chan_cap"
      using assms(1) ch(3) by (auto simp: world_ok_def dest!: set_update_subset_insert [THEN subsetD])
    ultimately show ?thesis using assms(1) k(3) ch by (auto simp: world_ok_def nth_list_update)
  qed
qed

lemma Subscribe_ok: "world_ok w \<Longrightarrow> world_ok (Subscribe w)"
  by (auto simp: world_ok_def Subscribe_def ring_add_def nth_append less_Suc_eq intro!: ring_ok_subs)
    (auto simp: ring_ok_def)

lemma cancel_ok: "world_ok w \<Longrightarrow> world_ok (cancel c w)"
  by (auto simp: world_ok_def cancel_def ring_delete_def nth_list_update dest!: set_update_subset_insert [THEN subsetD]
      intro!: ring_ok_subs)
    (auto simp: ring_ok_def)

lemma receive_ok: "world_ok w \<Longrightarrow> receive c w = Some w' \<Longrightarrow> world_ok w'"
  by (auto simp: world_ok_def receive_def nth_list_update split: if_splits
      dest!: set_update_subset_insert [THEN subsetD])
    (meson diff_le_self le_trans nth_mem)

lemma log_exec_ok: "world_ok w \<Longrightarrow> log_exec e w = Some w' \<Longrightarrow> world_ok w'"
  by (cases e) (auto intro: Write_locked_ok Write_send_ok Subscribe_ok cancel_ok receive_ok)

lemma log_reachable_ok: "log_reachable sz w \<Longrightarrow> world_ok w"
  by (induction rule: log_reachable.induct) (auto intro: world_ok_new log_exec_ok)

lemma log_run_reachable: "log_reachable sz w \<Longrightarrow> log_run es w = Some w' \<Longrightarrow> log_reachable sz w'"
  by (induction es w rule: log_run.induct) (auto split: option.splits intro: log_reachable.step)

lemma line_count_pushes: "ring_ok r \<Longrightarrow> line_count (fold ring_push ls r) = length (ring_lines (fold ring_push ls r))"
  using rl.pushes_ok [of r ls] by simp

lemma lastn_all: "length xs \<le> n \<Longrightarrow> lastn n xs = xs"
  by (simp add: lastn_def)

lemma lastn_of_lastn: "m \<le> n \<Longrightarrow> lastn m (lastn n xs) = lastn m xs"
  by (cases "length xs \<le> n") (simp_all add: lastn_def)

lemma log_exec_size: "log_exec e w = Some w' \<Longrightarrow> size_of (ring w') = size_of (ring w)"
  by (cases e)
    (auto simp: Write_locked_def ring_push_def Write_send_def Subscribe_def ring_add_def cancel_def ring_delete_def receive_def
      split: if_splits list.splits option.splits)

lemma log_reachable_size: "log_reachable sz w \<Longrightarrow> size_of (ring w) = (if sz \<le> 0 then 1 else nat sz)"
  by (induction rule: log_reachable.induct) (auto simp: log_exec_size new_world_def NewRing_def Let_def)

section \<open>Lemmas: a writer among others\<close>

text \<open>Only its own sends change a writer.\<close>

lemma exec_other_writer:
  assumes "log_exec e w = Some w'" and "k < length (writers w)"
  shows "k < length (writers w')" and "e \<noteq> LSend k \<Longrightarrow> writers w' ! k = writers w ! k"
proof -
  have "k < length (writers w') \<and> (e \<noteq> LSend k \<longrightarrow> writers w' ! k = writers w ! k)"
    using assms
    by (cases e)
      (auto simp: Write_locked_def Write_send_def Subscribe_def cancel_def receive_def nth_append nth_list_update
        split: if_splits list.splits option.splits)
  then show "k < length (writers w')" "e \<noteq> LSend k \<Longrightarrow> writers w' ! k = writers w ! k" by blast+
qed

lemma send_progress:
  assumes "log_exec (LSend k) w = Some w'"
  obtains c cs where "w_pending (writers w ! k) = c # cs" "w_line (writers w' ! k) = w_line (writers w ! k)"
    "w_pending (writers w' ! k) = (if closed (chans w ! c) then [] else cs)"
  using assms
  by (auto simp: Write_send_def try_send_def split: if_splits list.splits option.splits)

text \<open>Its sends are bounded by the channels it has collected, whatever happens in between.\<close>

lemma writer_bounded:
  assumes "log_run es w = Some w'" and "k < length (writers w)"
  shows "k < length (writers w') \<and> w_line (writers w' ! k) = w_line (writers w ! k) \<and>
    count_list es (LSend k) + length (w_pending (writers w' ! k)) \<le> length (w_pending (writers w ! k)) \<and>
    set (w_pending (writers w' ! k)) \<subseteq> set (w_pending (writers w ! k))"
  using assms
proof (induction es arbitrary: w)
  case (Cons e es)
  then obtain w1 where e: "log_exec e w = Some w1" "log_run es w1 = Some w'" by (auto split: option.splits)
  note IH = Cons.IH [OF e(2) exec_other_writer(1) [OF e(1) Cons.prems(2)]]
  show ?case
  proof (cases "e = LSend k")
    case True
    with e(1) obtain c cs where "w_pending (writers w ! k) = c # cs" "w_line (writers w1 ! k) = w_line (writers w ! k)"
      "w_pending (writers w1 ! k) = (if closed (chans w ! c) then [] else cs)"
      using send_progress [OF e(1) [unfolded True]] by metis
    with IH True show ?thesis by (auto split: if_splits)
  next
    case False
    with IH exec_other_writer(2) [OF e(1) Cons.prems(2) False] show ?thesis by simp
  qed
qed simp

text \<open>Channels are closed by cancellations only.\<close>

lemma exec_keeps_open:
  assumes "log_exec e w = Some w'" and "\<And>c. e \<noteq> LCancel c" and "c < length (chans w)"
  shows "c < length (chans w')" and "closed (chans w' ! c) = closed (chans w ! c)"
proof -
  have "c < length (chans w') \<and> closed (chans w' ! c) = closed (chans w ! c)"
    using assms
    by (cases e)
      (auto simp: Write_locked_def Write_send_def try_send_def Subscribe_def receive_def nth_append nth_list_update
        split: if_splits list.splits option.splits)
  then show "c < length (chans w')" "closed (chans w' ! c) = closed (chans w ! c)" by blast+
qed

lemma writer_in_order:
  assumes "log_run es w = Some w'" and "k < length (writers w)" and "\<forall>c. LCancel c \<notin> set es"
    and "\<forall>c \<in> set (w_pending (writers w ! k)). c < length (chans w) \<and> \<not> closed (chans w ! c)"
  shows "w_pending (writers w' ! k) = drop (count_list es (LSend k)) (w_pending (writers w ! k)) \<and>
    (\<forall>c \<in> set (w_pending (writers w' ! k)). c < length (chans w') \<and> \<not> closed (chans w' ! c))"
  using assms
proof (induction es arbitrary: w)
  case (Cons e es)
  then obtain w1 where e: "log_exec e w = Some w1" "log_run es w1 = Some w'" by (auto split: option.splits)
  have nc: "\<And>c. e \<noteq> LCancel c" "\<forall>c. LCancel c \<notin> set es" using Cons.prems(3) by auto
  have pend: "w_pending (writers w1 ! k) = (if e = LSend k then tl (w_pending (writers w ! k)) else w_pending (writers w ! k))
      \<and> (e = LSend k \<longrightarrow> w_pending (writers w ! k) \<noteq> [])"
  proof (cases "e = LSend k")
    case True
    with e(1) obtain c cs where "w_pending (writers w ! k) = c # cs"
      "w_pending (writers w1 ! k) = (if closed (chans w ! c) then [] else cs)"
      using send_progress [OF e(1) [unfolded True]] by metis
    with True Cons.prems(4) show ?thesis by simp
  next
    case False
    with exec_other_writer(2) [OF e(1) Cons.prems(2)] show ?thesis by simp
  qed
  then have "set (w_pending (writers w1 ! k)) \<subseteq> set (w_pending (writers w ! k))"
    by (auto dest: list.set_sel(2) split: if_splits)
  with Cons.prems(4) exec_keeps_open [OF e(1) nc(1)]
  have "\<forall>c \<in> set (w_pending (writers w1 ! k)). c < length (chans w1) \<and> \<not> closed (chans w1 ! c)" by blast
  from Cons.IH [OF e(2) exec_other_writer(1) [OF e(1) Cons.prems(2)] nc(2) this] pend show ?case
    by (cases "w_pending (writers w ! k)") auto
qed simp

text \<open>A writer that still has channels to serve can always take its next step.\<close>

lemma send_enabled:
  assumes "world_ok w" and "k < length (writers w)" and "w_pending (writers w ! k) = c # cs"
  shows "\<exists>w'. log_exec (LSend k) w = Some w'"
    and "\<not> closed (chans w ! c) \<Longrightarrow> log_exec (LSend k) w =
      Some (w\<lparr>chans := (chans w)[c := (chans w ! c)\<lparr>queue :=
                (if length (queue (chans w ! c)) < chan_cap then queue (chans w ! c) @ [w_line (writers w ! k)]
                 else queue (chans w ! c))\<rparr>],
              writers := (writers w)[k := \<lparr>w_line = w_line (writers w ! k), w_pending = cs\<rparr>]\<rparr>)"
proof -
  have "c < length (chans w)" using assms by (auto simp: world_ok_def dest!: nth_mem)
  with assms(2,3) show "\<exists>w'. log_exec (LSend k) w = Some w'"
    by (auto simp: Write_send_def split: option.split)
  show "log_exec (LSend k) w =
      Some (w\<lparr>chans := (chans w)[c := (chans w ! c)\<lparr>queue :=
                (if length (queue (chans w ! c)) < chan_cap then queue (chans w ! c) @ [w_line (writers w ! k)]
                 else queue (chans w ! c))\<rparr>],
              writers := (writers w)[k := \<lparr>w_line = w_line (writers w ! k), w_pending = cs\<rparr>]\<rparr>)"
    if "\<not> closed (chans w ! c)"
    using that assms(2,3) \<open>c < length (chans w)\<close>
    by (cases "writers w ! k") (auto simp: Write_send_def try_send_def)
qed

section \<open>Properties\<close>

text \<open>
  C28: The ring keeps exactly the most recent lines: a snapshot of \<open>n\<close> lines is the last \<open>n\<close> of
  everything ever written, oldest first, up to the capacity, and all that is retained when \<open>n\<close>
  is not positive.
\<close>

theorem ring_keeps_last_lines:
  "Snapshot n (fold ring_push ls (NewRing sz)) =
     (let cap = (if sz \<le> 0 then 1 else nat sz) in lastn (if n \<le> 0 then cap else min (nat n) cap) ls)"
proof -
  define cap where "cap = (if sz \<le> 0 then 1 else nat sz)"
  define r where "r = fold ring_push ls (NewRing sz)"
  have ok: "ring_ok r" and lines: "ring_lines r = lastn cap ls"
    using rl.pushes_ok [OF ring_ok_new, of ls sz] rl.pushes_lines [OF ring_ok_new, of ls sz]
    by (simp_all add: r_def cap_def NewRing_def [THEN arg_cong, of size_of] Let_def)
  have count: "line_count r = min cap (length ls)" using length_ring_lines [OF ok] lines by simp
  have all: "lastn (line_count r) (lastn cap ls) = lastn cap ls" unfolding count by (simp add: lastn_all)
  show ?thesis
  proof (cases "n \<le> 0 \<or> n > int (line_count r)")
    case True
    then have "n \<le> 0 \<or> min (nat n) cap = cap \<or> length ls \<le> min (nat n) cap"
      using count by (auto simp: min_def split: if_splits)
    moreover have "length ls \<le> cap" if "length ls \<le> min (nat n) cap" using that by simp
    ultimately show ?thesis
      using True Snapshot_lines [OF ok, of n] lines all
      by (auto simp: Let_def lastn_all simp flip: r_def cap_def)
  next
    case False
    then have "nat n \<le> cap" using count by (auto simp: min_def split: if_splits)
    with False show ?thesis
      using Snapshot_lines [OF ok, of n] lines
      by (simp add: Let_def lastn_of_lastn min_absorb1 flip: r_def cap_def)
  qed
qed

text \<open>
  C30: Memory stays bounded under every interleaving of writers, subscribers and readers: the
  buffer keeps the configured number of slots and a snapshot has at most that many lines, no
  channel ever buffers more than 256 lines, and the registered subscribers are exactly the
  channels that are open.
\<close>

theorem log_memory_bounded:
  assumes "log_reachable sz w"
  shows "length (buf (ring w)) = (if sz \<le> 0 then 1 else nat sz) \<and> size_of (ring w) = length (buf (ring w)) \<and>
    length (Snapshot n (ring w)) \<le> size_of (ring w) \<and> (\<forall>c \<in> set (chans w). length (queue c) \<le> 256) \<and>
    set (subs (ring w)) = {c. c < length (chans w) \<and> \<not> closed (chans w ! c)} \<and> Subscribers (ring w) \<le> length (chans w)"
proof -
  have ok: "world_ok w" using assms by (rule log_reachable_ok)
  then have r: "ring_ok (ring w)" by (simp add: world_ok_def)
  have "length (Snapshot n (ring w)) \<le> size_of (ring w)"
    using r by (auto simp: Snapshot_lines ring_ok_def)
  moreover have "card (set (subs (ring w))) \<le> card {..<length (chans w)}"
    using ok by (intro card_mono) (auto simp: world_ok_def)
  then have "Subscribers (ring w) \<le> length (chans w)"
    using r by (simp add: Subscribers_def ring_ok_def distinct_card)
  moreover have "length (buf (ring w)) = size_of (ring w)" using r by (simp add: ring_ok_def)
  ultimately show ?thesis using ok log_reachable_size [OF assms] by (auto simp: world_ok_def chan_cap_def)
qed

theorem log_memory_bounded_witness:
  "\<exists>w. log_run [LSubscribe, LWrite ''a'' [0], LSend 0, LWrite ''b'' [0]] (new_world 1) = Some w \<and>
     length (Snapshot 5 (ring w)) \<le> 1 \<and> length (buf (ring w)) = 1"
proof -
  have "log_run [LSubscribe, LWrite ''a'' [0], LSend 0, LWrite ''b'' [0]] (new_world 1) \<noteq> None" by code_simp
  then obtain w where w: "log_run [LSubscribe, LWrite ''a'' [0], LSend 0, LWrite ''b'' [0]] (new_world 1) = Some w" by blast
  from log_memory_bounded [OF log_run_reachable [OF log_reachable.start w], of 5] w show ?thesis by auto
qed

text \<open>
  C31: Logging never blocks, in any interleaving. Let other writers, subscribers, readers and
  cancellations do anything after a \<open>Write\<close> has released the mutex: the writer has at most one
  send per subscriber to make, and its next send is always possible. Unless a subscription is
  cancelled meanwhile, it serves its subscribers one after the other without a panic: the line
  goes into the channel when there is room, and is dropped for that subscriber when its 256
  slots are full.
\<close>

theorem write_never_blocks:
  assumes "log_reachable sz w" and "log_run (LWrite p order # es) w = Some w1" and "k = length (writers w)"
  shows "w_line (writers w1 ! k) = p \<and>
    count_list es (LSend k) + length (w_pending (writers w1 ! k)) \<le> Subscribers (ring w) \<and>
    ((\<forall>i. LCancel i \<notin> set es) \<longrightarrow> w_pending (writers w1 ! k) = drop (count_list es (LSend k)) order) \<and>
    (\<forall>c cs. w_pending (writers w1 ! k) = c # cs \<longrightarrow>
       (\<exists>w2. log_exec (LSend k) w1 = Some w2 \<and>
          ((\<forall>i. LCancel i \<notin> set es) \<longrightarrow>
             w2 = w1\<lparr>chans := (chans w1)[c := (chans w1 ! c)\<lparr>queue :=
                        (if length (queue (chans w1 ! c)) < 256 then queue (chans w1 ! c) @ [p] else queue (chans w1 ! c))\<rparr>],
                     writers := (writers w1)[k := \<lparr>w_line = p, w_pending = cs\<rparr>]\<rparr>)))"
proof -
  from assms(2) have o: "distinct order" "set order = set (subs (ring w))"
    and run: "log_run es (w\<lparr>ring := ring_push p (ring w), writers := writers w @ [\<lparr>w_line = p, w_pending = order\<rparr>]\<rparr>) = Some w1"
    by (auto simp: Write_locked_def split: if_splits)
  let ?w = "w\<lparr>ring := ring_push p (ring w), writers := writers w @ [\<lparr>w_line = p, w_pending = order\<rparr>]\<rparr>"
  have ok: "world_ok w" "world_ok w1"
    using log_reachable_ok [OF assms(1)] log_reachable_ok [OF log_run_reachable [OF assms(1,2)]] by blast+
  have new: "k < length (writers ?w)" "w_line (writers ?w ! k) = p" "w_pending (writers ?w ! k) = order"
    by (simp_all add: assms(3))
  have len: "length order = Subscribers (ring w)"
    using ok(1) distinct_card [OF o(1)] distinct_card [of "subs (ring w)"] o(2)
    by (simp only: Subscribers_def world_ok_def ring_ok_def)
  note b = writer_bounded [OF run new(1), unfolded new]
  have opened: "\<forall>c \<in> set (w_pending (writers ?w ! k)). c < length (chans ?w) \<and> \<not> closed (chans ?w ! c)"
    using ok(1) o(2) new(3) by (auto simp: world_ok_def)
  note ord = writer_in_order [OF run new(1) _ opened, unfolded new]
  have "\<exists>w2. log_exec (LSend k) w1 = Some w2 \<and>
      ((\<forall>i. LCancel i \<notin> set es) \<longrightarrow>
         w2 = w1\<lparr>chans := (chans w1)[c := (chans w1 ! c)\<lparr>queue :=
                    (if length (queue (chans w1 ! c)) < 256 then queue (chans w1 ! c) @ [p] else queue (chans w1 ! c))\<rparr>],
                 writers := (writers w1)[k := \<lparr>w_line = p, w_pending = cs\<rparr>]\<rparr>)"
    if pend: "w_pending (writers w1 ! k) = c # cs" for c cs
  proof -
    have k1: "k < length (writers w1)" using b by blast
    from send_enabled(1) [OF ok(2) k1 pend] obtain w2 where w2: "log_exec (LSend k) w1 = Some w2" by blast
    moreover have "\<not> closed (chans w1 ! c)" if "\<forall>i. LCancel i \<notin> set es" using ord [OF that] pend by simp
    ultimately show ?thesis using send_enabled(2) [OF ok(2) k1 pend] b by (auto simp: chan_cap_def)
  qed
  with b ord len show ?thesis by auto
qed

text \<open>Two subscribers; another subscriber, another write and a read come between the sends.\<close>

theorem write_never_blocks_witness:
  "\<exists>w w1 w2. log_run [LSubscribe, LSubscribe] (new_world 3) = Some w \<and>
     log_run [LWrite ''a'' [0, 1], LSend 0, LSubscribe, LWrite ''b'' [0, 2, 1], LSend 1, LReceive 0] w = Some w1 \<and>
     w_pending (writers w1 ! 0) = [1] \<and> log_exec (LSend 0) w1 = Some w2 \<and>
     queue (chans w2 ! 1) = queue (chans w1 ! 1) @ [''a''] \<and> panics w2 = panics w1"
proof -
  let ?es = "[LSend 0, LSubscribe, LWrite ''b'' [0, 2, 1], LSend 1, LReceive 0]"
  have "case log_run [LSubscribe, LSubscribe] (new_world 3) of None \<Rightarrow> False | Some w \<Rightarrow> writers w = [] \<and>
      (case log_run (LWrite ''a'' [0, 1] # ?es) w of None \<Rightarrow> False
       | Some w1 \<Rightarrow> map (\<lambda>c. length (queue c)) (chans w1) = [1, 0, 0])" by code_simp
  then obtain w w1 where w: "log_run [LSubscribe, LSubscribe] (new_world 3) = Some w" "writers w = []"
    and w1: "log_run (LWrite ''a'' [0, 1] # ?es) w = Some w1" "map (\<lambda>c. length (queue c)) (chans w1) = [1, 0, 0]"
    by (auto split: option.splits)
  have r: "log_reachable 3 w" by (rule log_run_reachable [OF log_reachable.start w(1)])
  have k: "0 = length (writers w)" using w(2) by simp
  note t = write_never_blocks [OF r w1(1) k]
  have p: "w_pending (writers w1 ! 0) = [1]" using t by simp
  have "1 < length (chans w1)" using arg_cong [OF w1(2), of length] by simp
  moreover from this have "length (queue (chans w1 ! 1)) < 256" using arg_cong [OF w1(2), of "\<lambda>xs. xs ! 1"] by simp
  moreover from t p obtain w2 where "log_exec (LSend 0) w1 = Some w2"
    "w2 = w1\<lparr>chans := (chans w1)[1 := (chans w1 ! 1)\<lparr>queue :=
        (if length (queue (chans w1 ! 1)) < 256 then queue (chans w1 ! 1) @ [''a''] else queue (chans w1 ! 1))\<rparr>],
      writers := (writers w1)[0 := \<lparr>w_line = ''a'', w_pending = []\<rparr>]\<rparr>"
    by (auto simp del: log_exec.simps)
  ultimately show ?thesis using p w(1) w1(1)
    by (intro exI [of _ w] exI [of _ w1] exI [of _ w2]) (simp del: log_exec.simps log_run.simps)
qed

text \<open>
  C32: The sends of \<open>Write\<close> happen after the mutex is released, on a copy of the subscriber set,
  while cancelling a subscription closes its channel. So whenever somebody is subscribed, there
  is an interleaving of one \<open>Write\<close> and one cancel in which the writer sends on a closed
  channel and panics.
\<close>

theorem write_cancel_race:
  assumes "log_reachable sz w" and "c \<in> set (subs (ring w))"
  shows "\<exists>order w'. log_run [LWrite p order, LCancel c, LSend (length (writers w))] w = Some w' \<and>
    panics w' = panics w + 1"
proof -
  have ok: "world_ok w" using assms(1) by (rule log_reachable_ok)
  have d: "distinct (subs (ring w))" and c: "c < length (chans w)"
    using ok assms(2) by (auto simp: world_ok_def ring_ok_def)
  let ?order = "c # remove1 c (subs (ring w))"
  have o: "distinct ?order" "set ?order = set (subs (ring w))" using d assms(2) by auto
  from o c assms(2) show ?thesis
    by (intro exI [of _ ?order])
      (simp add: Write_locked_def cancel_def ring_delete_def ring_ok_subs Write_send_def try_send_def del: distinct.simps)
qed

theorem write_cancel_race_witness:
  "\<exists>order w'. log_run [LWrite ''a'' order, LCancel 0, LSend 0] (Subscribe (new_world 3)) = Some w' \<and> panics w' = 1"
proof -
  have r: "log_reachable 3 (Subscribe (new_world 3))"
    by (rule log_reachable.step [OF log_reachable.start, where e = LSubscribe]) simp
  have s: "0 \<in> set (subs (ring (Subscribe (new_world 3))))" "writers (Subscribe (new_world 3)) = []"
    "panics (Subscribe (new_world 3)) = 0"
    by (simp_all add: Subscribe_def ring_add_def new_world_def NewRing_def)
  from write_cancel_race [OF r s(1), of "''a''"] s show ?thesis by simp
qed

end
