(* ===== verification/Go_Text.thy ===== *)
theory Go_Text
  imports Wallet_Prelude
begin

text \<open>
  The functions of Go's standard library on strings and numbers that the program calls:
  \<open>strings.TrimSpace\<close>, \<open>strings.EqualFold\<close>, \<open>strings.ToLower\<close>, \<open>strconv.Atoi\<close>. Strings are byte
  lists holding UTF-8.
\<close>

section \<open>Definitions\<close>

text \<open>The white space of \<open>unicode.IsSpace\<close>, encoded: six ASCII characters and the others.\<close>

definition ascii_spaces :: "char list" where
  "ascii_spaces = [CHR 0x09, CHR 0x0A, CHR 0x0B, CHR 0x0C, CHR 0x0D, CHR 0x20]"

definition space_runes :: "bytes list" where
  "space_runes =
     map (\<lambda>c. [c]) ascii_spaces @
     [[CHR 0xC2, CHR 0x85], [CHR 0xC2, CHR 0xA0], [CHR 0xE1, CHR 0x9A, CHR 0x80]] @
     map (\<lambda>i. [CHR 0xE2, CHR 0x80, char_of (0x80 + i)]) [0..<11] @
     [[CHR 0xE2, CHR 0x80, CHR 0xA8], [CHR 0xE2, CHR 0x80, CHR 0xA9], [CHR 0xE2, CHR 0x80, CHR 0xAF],
      [CHR 0xE2, CHR 0x81, CHR 0x9F], [CHR 0xE3, CHR 0x80, CHR 0x80]]"

fun strip_prefix :: "bytes \<Rightarrow> bytes \<Rightarrow> bytes option" where
  "strip_prefix [] ys = Some ys"
| "strip_prefix (x # xs) [] = None"
| "strip_prefix (x # xs) (y # ys) = (if x = y then strip_prefix xs ys else None)"

text \<open>One leading space, if there is one; \<open>runes\<close> are the encodings to look for.\<close>

fun strip_one :: "bytes list \<Rightarrow> bytes \<Rightarrow> bytes option" where
  "strip_one [] s = None"
| "strip_one (r # rs) s = (case strip_prefix r s of Some t \<Rightarrow> Some t | None \<Rightarrow> strip_one rs s)"

lemma strip_prefix_length: "strip_prefix r s = Some t \<Longrightarrow> length s = length r + length t"
  by (induction r s rule: strip_prefix.induct) (auto split: if_splits)

lemma strip_one_length: "strip_one rs s = Some t \<Longrightarrow> [] \<notin> set rs \<Longrightarrow> length t < length s"
  by (induction rs) (auto split: option.splits dest: strip_prefix_length)

lemma space_runes_nonempty: "[] \<notin> set space_runes" "[] \<notin> set (map rev space_runes)"
  by (auto simp: space_runes_def)

function trim_left :: "bytes \<Rightarrow> bytes" where
  "trim_left s = (case strip_one space_runes s of Some t \<Rightarrow> trim_left t | None \<Rightarrow> s)"
  by auto
termination
  by (relation "measure length") (auto dest: strip_one_length simp: space_runes_nonempty)

text \<open>Trailing space: the same on the reversed text, with the encodings reversed.\<close>

function trim_rev :: "bytes \<Rightarrow> bytes" where
  "trim_rev s = (case strip_one (map rev space_runes) s of Some t \<Rightarrow> trim_rev t | None \<Rightarrow> s)"
  by auto
termination
  by (relation "measure length") (auto dest: strip_one_length simp: space_runes_nonempty simp del: set_map)

declare trim_left.simps [simp del] trim_rev.simps [simp del]

definition TrimSpace :: "string \<Rightarrow> string" where
  "TrimSpace s = rev (trim_rev (rev (trim_left s)))"

text \<open>ASCII lower case.\<close>

definition to_lower :: "char \<Rightarrow> char" where
  "to_lower c = (if CHR ''A'' \<le> c \<and> c \<le> CHR ''Z'' then char_of (of_char c + 32 :: nat) else c)"

text \<open>
  \<open>strings.EqualFold\<close> against an ASCII text without the letters k and s: the only non-ASCII
  characters that fold to ASCII are the Kelvin sign (k) and the long s.
\<close>

definition EqualFold :: "string \<Rightarrow> string \<Rightarrow> bool" where
  "EqualFold s t \<longleftrightarrow> map to_lower s = map to_lower t"

text \<open>
  \<open>strconv.Atoi\<close>: an optional sign and decimal digits, within \<open>int64\<close>; \<open>None\<close> is an error.
\<close>

definition digits_value :: "string \<Rightarrow> nat option" where
  "digits_value ds = (if ds \<noteq> [] \<and> list_all is_digit ds then Some (read_digits 0 ds) else None)"

definition Atoi :: "string \<Rightarrow> int option" where
  "Atoi s =
     (case s of
        [] \<Rightarrow> None
      | c # cs \<Rightarrow>
          (let neg = (c = CHR ''-'');
               ds = (if c = CHR ''-'' \<or> c = CHR ''+'' then cs else s)
           in case digits_value ds of
                None \<Rightarrow> None
              | Some n \<Rightarrow> (let v = (if neg then - int n else int n) in if in_int64 v then Some v else None)))"

section \<open>Lemmas\<close>

lemma Atoi_show_int: "in_int64 i \<Longrightarrow> Atoi (show_int i) = Some i"
proof -
  assume i: "in_int64 i"
  have digits: "digits_value (show_nat n) = Some n" for n
  proof -
    have "show_nat n \<noteq> []" by (subst show_nat.simps) simp
    moreover have "list_all is_digit (show_nat n)" by (auto simp: list_all_iff dest: show_nat_digits)
    ultimately show ?thesis by (simp add: digits_value_def read_show_nat)
  qed
  show ?thesis
  proof (cases "i < 0")
    case True
    with i digits show ?thesis by (simp add: Atoi_def show_int_def)
  next
    case False
    obtain c cs where s: "show_nat (nat i) = c # cs" by (cases "show_nat (nat i)") (auto simp: show_nat.simps [of "nat i"] split: if_splits)
    then have "is_digit c" using show_nat_digits [of c "nat i"] by simp
    then have "c \<noteq> CHR ''-''" "c \<noteq> CHR ''+''" by (auto simp: is_digit_def)
    with False s i digits [of "nat i"] show ?thesis by (simp add: Atoi_def show_int_def)
  qed
qed

lemma Atoi_bounds: "Atoi s = Some i \<Longrightarrow> in_int64 i"
  by (auto simp: Atoi_def Let_def split: list.splits option.splits if_splits)

text \<open>A text that starts and ends with no space is left alone.\<close>

lemma trim_left_id: "strip_one space_runes s = None \<Longrightarrow> trim_left s = s"
  by (subst trim_left.simps) simp

lemma trim_left_fixed: "strip_one space_runes (trim_left s) = None"
proof (induction s rule: trim_left.induct)
  case (1 s)
  then show ?case by (cases "strip_one space_runes s") (simp_all add: trim_left.simps [of s])
qed

end
