(* ===== verification/Config_Env.thy ===== *)
theory Config_Env
  imports Go_Text
begin

text \<open>
  Package \<open>config\<close>: \<open>Load\<close> reads the environment (\<open>os.Getenv\<close> as a function that gives the empty
  text for an unset variable), with Go's conversions to \<open>int32\<close> and to a \<open>time.Duration\<close> in
  nanoseconds written out.
\<close>

section \<open>Definitions\<close>

datatype Level = LevelDebug | LevelInfo | LevelWarn | LevelError

record Config =
  Port :: string
  DatabaseURL :: string
  AdminToken :: string
  LogLevel :: Level
  LogRingSize :: int
  MaxDBConns :: int
  MinDBConns :: int
  ShutdownGrace :: int
  MigrateOnStart :: bool
  InvariantSample :: int
  Version :: string

datatype config_error = DatabaseURLRequired | MinExceedsMax int int

text \<open>The conversion \<open>int32(n)\<close> keeps the low 32 bits.\<close>

definition wrap32 :: "int \<Rightarrow> int" where
  "wrap32 i = (i + 2147483648) mod 4294967296 - 2147483648"

text \<open>\<open>time.Duration(n) * time.Second\<close>, an \<open>int64\<close> product.\<close>

definition seconds :: "int \<Rightarrow> int" where
  "seconds n = wrap64 (n * 1000000000)"

definition env :: "(string \<Rightarrow> string) \<Rightarrow> string \<Rightarrow> string \<Rightarrow> string" where
  "env getenv key def = (if getenv key \<noteq> '''' then getenv key else def)"

definition envInt :: "(string \<Rightarrow> string) \<Rightarrow> string \<Rightarrow> int \<Rightarrow> int" where
  "envInt getenv key def =
     (if getenv key \<noteq> '''' then (case Atoi (getenv key) of Some n \<Rightarrow> n | None \<Rightarrow> def) else def)"

definition log_level :: "string \<Rightarrow> Level" where
  "log_level s =
     (let l = map to_lower s in
      if l = ''debug'' then LevelDebug else if l = ''warn'' then LevelWarn
      else if l = ''error'' then LevelError else LevelInfo)"

definition Load :: "(string \<Rightarrow> string) \<Rightarrow> Config \<times> config_error option" where
  "Load getenv =
     (let c = \<lparr>Port = env getenv ''PORT'' ''8080'',
               DatabaseURL = getenv ''DATABASE_URL'',
               AdminToken = env getenv ''ADMIN_TOKEN'' ''dev-admin-token'',
               LogLevel = log_level (env getenv ''LOG_LEVEL'' ''info''),
               LogRingSize = envInt getenv ''LOG_RING_SIZE'' 5000,
               MaxDBConns = wrap32 (envInt getenv ''DB_MAX_CONNS'' 20),
               MinDBConns = wrap32 (envInt getenv ''DB_MIN_CONNS'' 2),
               ShutdownGrace = seconds (envInt getenv ''SHUTDOWN_GRACE_SECONDS'' 15),
               MigrateOnStart = (env getenv ''MIGRATE_ON_START'' ''true'' = ''true''),
               InvariantSample = seconds (envInt getenv ''INVARIANT_SAMPLE_SECONDS'' 15),
               Version = env getenv ''APP_VERSION'' ''dev''\<rparr>
      in if DatabaseURL c = '''' then (c, Some DatabaseURLRequired)
         else if MinDBConns c > MaxDBConns c then (c, Some (MinExceedsMax (MinDBConns c) (MaxDBConns c)))
         else (c, None))"

text \<open>An environment given by its variables.\<close>

definition vars :: "(string \<times> string) list \<Rightarrow> string \<Rightarrow> string" where
  "vars kvs key = (case map_of kvs key of Some v \<Rightarrow> v | None \<Rightarrow> '''')"

section \<open>Properties\<close>

lemma wrap32_bounds: "- 2147483648 \<le> wrap32 i \<and> wrap32 i \<le> 2147483647"
proof -
  have "0 \<le> (i + 2147483648) mod 4294967296" "(i + 2147483648) mod 4294967296 < 4294967296" by simp_all
  then show ?thesis unfolding wrap32_def by linarith
qed

lemma wrap32_id: "- 2147483648 \<le> i \<Longrightarrow> i \<le> 2147483647 \<Longrightarrow> wrap32 i = i"
  by (simp add: wrap32_def)

lemma Load_fields:
  "Port (fst (Load g)) = env g ''PORT'' ''8080''"
  "DatabaseURL (fst (Load g)) = g ''DATABASE_URL''"
  "AdminToken (fst (Load g)) = env g ''ADMIN_TOKEN'' ''dev-admin-token''"
  "LogRingSize (fst (Load g)) = envInt g ''LOG_RING_SIZE'' 5000"
  "MaxDBConns (fst (Load g)) = wrap32 (envInt g ''DB_MAX_CONNS'' 20)"
  "MinDBConns (fst (Load g)) = wrap32 (envInt g ''DB_MIN_CONNS'' 2)"
  "ShutdownGrace (fst (Load g)) = seconds (envInt g ''SHUTDOWN_GRACE_SECONDS'' 15)"
  "InvariantSample (fst (Load g)) = seconds (envInt g ''INVARIANT_SAMPLE_SECONDS'' 15)"
  "Version (fst (Load g)) = env g ''APP_VERSION'' ''dev''"
  by (simp_all add: Load_def Let_def)

lemma Load_ok:
  "snd (Load g) = None \<longleftrightarrow> g ''DATABASE_URL'' \<noteq> '''' \<and>
     wrap32 (envInt g ''DB_MIN_CONNS'' 2) \<le> wrap32 (envInt g ''DB_MAX_CONNS'' 20)"
  by (simp add: Load_def Let_def not_less)

text \<open>
  C37: A configuration that \<open>Load\<close> accepts has a database URL, pool bounds that are 32-bit and in
  order, and no empty port, admin token or version: an unset or empty variable takes its default,
  and a malformed number does too.
\<close>

theorem load_accepts_consistent:
  assumes "Load getenv = (c, None)"
  shows "DatabaseURL c = getenv ''DATABASE_URL'' \<and> DatabaseURL c \<noteq> '''' \<and> MinDBConns c \<le> MaxDBConns c \<and>
    MaxDBConns c \<le> 2147483647 \<and> - 2147483648 \<le> MinDBConns c \<and> Port c \<noteq> '''' \<and> AdminToken c \<noteq> '''' \<and> Version c \<noteq> '''' \<and>
    (Atoi (getenv ''DB_MAX_CONNS'') = None \<longrightarrow> MaxDBConns c = 20) \<and>
    (Atoi (getenv ''LOG_RING_SIZE'') = None \<longrightarrow> LogRingSize c = 5000) \<and>
    in_int64 (ShutdownGrace c) \<and> in_int64 (InvariantSample c)"
proof -
  have c: "c = fst (Load getenv)" and ok: "snd (Load getenv) = None" using assms by simp_all
  have d: "envInt getenv key def = def" if "Atoi (getenv key) = None" for key def
    using that by (simp add: envInt_def)
  from ok have "DatabaseURL c \<noteq> ''''" "MinDBConns c \<le> MaxDBConns c"
    unfolding c Load_fields by (simp_all add: Load_ok)
  moreover have "Atoi (getenv ''DB_MAX_CONNS'') = None \<longrightarrow> MaxDBConns c = 20"
    unfolding c Load_fields using d by (simp add: wrap32_id)
  moreover have "Atoi (getenv ''LOG_RING_SIZE'') = None \<longrightarrow> LogRingSize c = 5000"
    unfolding c Load_fields using d by simp
  ultimately show ?thesis
    unfolding c Load_fields by (simp add: wrap32_bounds seconds_def env_def)
qed

theorem load_accepts_consistent_witness:
  "\<exists>c. Load (vars [(''DATABASE_URL'', ''postgres://db''), (''DB_MAX_CONNS'', ''many'')]) = (c, None) \<and>
     MaxDBConns c = 20 \<and> MinDBConns c \<le> 20 \<and> Port c \<noteq> ''''"
proof -
  let ?g = "vars [(''DATABASE_URL'', ''postgres://db''), (''DB_MAX_CONNS'', ''many'')]"
  have "snd (Load ?g) = None" by code_simp
  then obtain c where c: "Load ?g = (c, None)" by (metis prod.collapse)
  have "Atoi (?g ''DB_MAX_CONNS'') = None" by code_simp
  with load_accepts_consistent [OF c] c show ?thesis by auto
qed

text \<open>
  The pool sizes are converted with \<open>int32\<close>, which keeps the low 32 bits: a number of
  connections that is too large by any multiple of \<open>2 ^ 32\<close> is accepted as the small remainder,
  without an error.
\<close>

theorem pool_size_truncated:
  assumes "0 \<le> k" and "2 \<le> n" and "n \<le> 2147483647" and "k * 4294967296 + n \<le> int64_max"
    and "getenv ''DATABASE_URL'' \<noteq> ''''" and "getenv ''DB_MIN_CONNS'' = ''''"
    and "getenv ''DB_MAX_CONNS'' = show_int (k * 4294967296 + n)"
  shows "snd (Load getenv) = None \<and> MaxDBConns (fst (Load getenv)) = n"
proof -
  have "in_int64 (k * 4294967296 + n)" using assms(1-4) by (simp add: in_int64_def int64_min_def)
  from Atoi_show_int [OF this] have a: "Atoi (getenv ''DB_MAX_CONNS'') = Some (k * 4294967296 + n)" by (simp add: assms(7))
  have "wrap32 (k * 4294967296 + n) = n"
    using assms(2,3) mod_mult_self3 [of k 4294967296 "n + 2147483648"] by (simp add: wrap32_def algebra_simps)
  moreover have "getenv ''DB_MAX_CONNS'' \<noteq> ''''" using a by (auto simp: Atoi_def)
  moreover have "wrap32 2 = 2" by (simp add: wrap32_def)
  ultimately show ?thesis using a assms(2,5,6) unfolding Load_ok Load_fields by (simp add: envInt_def)
qed

theorem pool_size_truncated_witness:
  "let g = vars [(''DATABASE_URL'', ''postgres://db''), (''DB_MAX_CONNS'', show_int 4294967300)] in
     snd (Load g) = None \<and> MaxDBConns (fst (Load g)) = 4"
  using pool_size_truncated [of 1 4 "vars [(''DATABASE_URL'', ''postgres://db''), (''DB_MAX_CONNS'', show_int 4294967300)]"]
  by (simp add: vars_def int64_max_def Let_def)

end
