(* ===== verification/Observability.thy ===== *)
theory Observability
  imports Store_Runs Log_Ring Config_Env
begin

text \<open>
  Package \<open>obs\<close> as the handlers use it: the correlation id of a context, the logger with its
  level, its correlation handler and the ring behind it, and the metric set. The state of the
  process (database, metrics, log) is the record \<open>server\<close>; the JSON line that \<open>slog\<close> makes of
  a record, the SHA-256 and the \<open>uuid\<close> input of the database are parameters of the service.
\<close>

section \<open>Contexts\<close>

text \<open>The value under \<open>correlationIDKey\<close>, if there is one.\<close>

type_synonym ctx = "string option"

definition WithCorrelationID :: "ctx \<Rightarrow> string \<Rightarrow> ctx" where
  "WithCorrelationID c i = Some i"

definition CorrelationID :: "ctx \<Rightarrow> string" where
  "CorrelationID c = (case c of Some i \<Rightarrow> i | None \<Rightarrow> '''')"

section \<open>Log records\<close>

text \<open>
  Attribute values; \<open>VError\<close> stands for the text of \<open>err.Error()\<close>, \<open>VMicros\<close> for a duration in
  milliseconds with its microseconds as fraction.
\<close>

datatype attr_value =
    VString string
  | VInt int
  | VBool bool
  | VError error
  | VMicros int

record log_record =
  lr_level :: Level
  lr_msg :: string
  lr_attrs :: "(string \<times> attr_value) list"

text \<open>What \<open>correlationHandler.Handle\<close> passes on to the JSON handler.\<close>

definition Handle :: "ctx \<Rightarrow> log_record \<Rightarrow> log_record" where
  "Handle c r =
     (if CorrelationID c \<noteq> '''' then r\<lparr>lr_attrs := lr_attrs r @ [(''correlation_id'', VString (CorrelationID c))]\<rparr>
      else r)"

fun level_value :: "Level \<Rightarrow> int" where
  "level_value LevelDebug = -4"
| "level_value LevelInfo = 0"
| "level_value LevelWarn = 4"
| "level_value LevelError = 8"

section \<open>Metrics\<close>

definition OutcomeSucceeded :: string where "OutcomeSucceeded = ''succeeded''"
definition OutcomeInsufficient :: string where "OutcomeInsufficient = ''declined_insufficient_funds''"
definition OutcomeReplay :: string where "OutcomeReplay = ''idempotent_replay''"
definition OutcomeConflict :: string where "OutcomeConflict = ''idempotency_key_conflict''"
definition OutcomeInvalid :: string where "OutcomeInvalid = ''rejected_invalid''"

lemmas outcome_defs = OutcomeSucceeded_def OutcomeInsufficient_def OutcomeReplay_def OutcomeConflict_def
  OutcomeInvalid_def

text \<open>
  Counters by their labels, the observations of the histogram in microseconds, the amounts passed
  to \<open>Add\<close> and the last value passed to \<open>Set\<close>, before the conversion to \<open>float64\<close>.
\<close>

record Metrics =
  HTTPRequests :: "string \<times> string \<times> string \<Rightarrow> nat"
  HTTPDuration :: "string \<times> string \<Rightarrow> int list"
  HTTPInFlight :: int
  Transfers :: "string \<Rightarrow> nat"
  TransferAmount :: "paise list"
  WalletsCreated :: nat
  WalletsReused :: nat
  MintedPaise :: "paise list"
  DBRetries :: "string \<Rightarrow> nat"
  TotalBalance :: int
  LedgerSum :: int

definition NewMetrics :: Metrics where
  "NewMetrics =
     \<lparr>HTTPRequests = (\<lambda>_. 0), HTTPDuration = (\<lambda>_. []), HTTPInFlight = 0, Transfers = (\<lambda>_. 0),
      TransferAmount = [], WalletsCreated = 0, WalletsReused = 0, MintedPaise = [],
      DBRetries = (\<lambda>_. 0), TotalBalance = 0, LedgerSum = 0\<rparr>"

text \<open>
  What \<open>NewMetrics\<close> registers: the name, the kind and the labels of each family, in the order of
  \<open>MustRegister\<close>, which panics when two families have the same name.
\<close>

datatype metric_kind = Counter | Gauge | Histogram

definition families :: "(string \<times> metric_kind \<times> string list) list" where
  "families =
     [(''http_requests_total'', Counter, [''method'', ''route'', ''status'']),
      (''http_request_duration_seconds'', Histogram, [''method'', ''route'']),
      (''http_requests_in_flight'', Gauge, []),
      (''wallet_transfers_total'', Counter, [''outcome'']),
      (''wallet_transferred_paise_total'', Counter, []),
      (''wallet_wallets_created_total'', Counter, []),
      (''wallet_wallets_reused_total'', Counter, []),
      (''wallet_minted_paise_total'', Counter, []),
      (''wallet_db_retries_total'', Counter, [''sqlstate'']),
      (''wallet_total_balance_paise'', Gauge, []),
      (''wallet_ledger_sum_paise'', Gauge, [])]"

text \<open>The two gauges that \<open>RegisterPoolGauge\<close> adds.\<close>

definition pool_families :: "(string \<times> metric_kind \<times> string list) list" where
  "pool_families =
     [(''wallet_db_pool_acquired_conns'', Gauge, []), (''wallet_db_pool_total_conns'', Gauge, [])]"

definition bump :: "('l \<Rightarrow> nat) \<Rightarrow> 'l \<Rightarrow> ('l \<Rightarrow> nat)" where
  "bump c l = c(l := Suc (c l))"

section \<open>The service and its state\<close>

record service =
  sv_pg :: pg
  adminToken :: string
  version :: string
  sv_level :: Level
  slog_line :: "log_record \<Rightarrow> bytes"

record server =
  s_db :: db
  s_metrics :: Metrics
  s_log :: "log_record list"
  s_ring :: Ring

text \<open>
  The logger: records below the level are dropped; the others are stamped, written to the standard
  output, which \<open>s_log\<close> records, and to the ring. Here \<open>Write\<close> of the ring is its part under the
  mutex; its sends to live subscribers, with the panic they can raise, are in \<open>Log_Ring\<close>.
\<close>

definition log_at :: "service \<Rightarrow> Level \<Rightarrow> ctx \<Rightarrow> string \<Rightarrow> (string \<times> attr_value) list \<Rightarrow> server \<Rightarrow> server" where
  "log_at sv l c msg attrs s =
     (if level_value l < level_value (sv_level sv) then s
      else
        (let r = Handle c \<lparr>lr_level = l, lr_msg = msg, lr_attrs = attrs\<rparr> in
         s\<lparr>s_log := s_log s @ [r], s_ring := ring_push (slog_line sv r) (s_ring s)\<rparr>))"

definition count_transfer :: "string \<Rightarrow> server \<Rightarrow> server" where
  "count_transfer outcome s = s\<lparr>s_metrics := (s_metrics s)\<lparr>Transfers := bump (Transfers (s_metrics s)) outcome\<rparr>\<rparr>"

text \<open>The callback that \<open>run\<close> registers with \<open>OnRetry\<close>; it logs without a context.\<close>

definition on_retry :: "service \<Rightarrow> string \<times> nat \<Rightarrow> server \<Rightarrow> server" where
  "on_retry sv p s =
     (let st = (if fst p = '''' then ''unknown'' else fst p);
          s1 = s\<lparr>s_metrics := (s_metrics s)\<lparr>DBRetries := bump (DBRetries (s_metrics s)) st\<rparr>\<rparr>
      in log_at sv LevelWarn None ''retrying transaction after transient postgres error''
           [(''event'', VString ''db_tx_retry''), (''sqlstate'', VString st)] s1)"

section \<open>Lemmas\<close>

named_theorems frame

text \<open>No registration panics.\<close>

lemma families_distinct: "distinct (map fst (families @ pool_families))"
  by code_simp

lemma log_at_frame [frame, simp]:
  "s_db (log_at sv l c m as s) = s_db s"
  "s_metrics (log_at sv l c m as s) = s_metrics s"
  by (simp_all add: log_at_def Let_def)

lemma count_transfer_frame [frame, simp]:
  "s_db (count_transfer k s) = s_db s" "s_log (count_transfer k s) = s_log s"
  "s_ring (count_transfer k s) = s_ring s"
  "Transfers (s_metrics (count_transfer k s)) = bump (Transfers (s_metrics s)) k"
  "HTTPInFlight (s_metrics (count_transfer k s)) = HTTPInFlight (s_metrics s)"
  "HTTPRequests (s_metrics (count_transfer k s)) = HTTPRequests (s_metrics s)"
  "TransferAmount (s_metrics (count_transfer k s)) = TransferAmount (s_metrics s)"
  by (simp_all add: count_transfer_def)

lemma on_retry_frame [frame, simp]:
  "s_db (on_retry sv p s) = s_db s" "Transfers (s_metrics (on_retry sv p s)) = Transfers (s_metrics s)"
  "HTTPInFlight (s_metrics (on_retry sv p s)) = HTTPInFlight (s_metrics s)"
  "HTTPRequests (s_metrics (on_retry sv p s)) = HTTPRequests (s_metrics s)"
  "TransferAmount (s_metrics (on_retry sv p s)) = TransferAmount (s_metrics s)"
  by (simp_all add: on_retry_def Let_def)

lemma on_retries_frame [frame, simp]:
  "s_db (fold (on_retry sv) rs s) = s_db s"
  "Transfers (s_metrics (fold (on_retry sv) rs s)) = Transfers (s_metrics s)"
  "HTTPInFlight (s_metrics (fold (on_retry sv) rs s)) = HTTPInFlight (s_metrics s)"
  "HTTPRequests (s_metrics (fold (on_retry sv) rs s)) = HTTPRequests (s_metrics s)"
  "TransferAmount (s_metrics (fold (on_retry sv) rs s)) = TransferAmount (s_metrics s)"
  by (induction rs arbitrary: s) simp_all

text \<open>The ring holds the most recent lines of the log.\<close>

definition log_mirrored :: "service \<Rightarrow> server \<Rightarrow> bool" where
  "log_mirrored sv s \<longleftrightarrow>
     ring_ok (s_ring s) \<and> ring_lines (s_ring s) = lastn (size_of (s_ring s)) (map (slog_line sv) (s_log s))"

lemma log_at_mirrored: "log_mirrored sv s \<Longrightarrow> log_mirrored sv (log_at sv l c m as s)"
  by (simp add: log_mirrored_def log_at_def Let_def rl.push_ok rl.push_lines rl.push_capacity lastn_lastn)

lemma mirrored_frame:
  "s_log s' = s_log s \<Longrightarrow> s_ring s' = s_ring s \<Longrightarrow> log_mirrored sv s' = log_mirrored sv s"
  by (simp add: log_mirrored_def)

lemma on_retries_mirrored: "log_mirrored sv s \<Longrightarrow> log_mirrored sv (fold (on_retry sv) rs s)"
proof (induction rs arbitrary: s)
  case (Cons p rs)
  have "log_mirrored sv (on_retry sv p s)"
    unfolding on_retry_def Let_def
    by (rule log_at_mirrored) (simp add: mirrored_frame [of _ s] Cons.prems)
  with Cons.IH show ?case by simp
qed simp

end
