(* ===== verification/Json_Decode.thy ===== *)
theory Json_Decode
  imports Go_Text
begin

text \<open>
  The request bodies: \<open>decodeJSON\<close> of \<open>handlers.go\<close> with what it uses of \<open>encoding/json\<close> (syntax,
  unquoting of strings, matching of member names, conversion to the fields of the two request
  structs). The parser takes fuel; twice the length of the text is enough, as shown below.
\<close>

section \<open>Syntax\<close>

datatype json =
    JNull
  | JBool bool
  | JNum string
  | JStr string
  | JArr "json list"
  | JObj "(string \<times> json) list"

definition is_ws :: "char \<Rightarrow> bool" where
  "is_ws c \<longleftrightarrow> c \<in> set [CHR 0x20, CHR 0x09, CHR 0x0D, CHR 0x0A]"

definition skip_ws :: "bytes \<Rightarrow> bytes" where
  "skip_ws s = dropWhile is_ws s"

text \<open>The next character after white space, if it is \<open>c\<close>.\<close>

definition expect :: "char \<Rightarrow> bytes \<Rightarrow> bytes option" where
  "expect c s = (case skip_ws s of [] \<Rightarrow> None | x # xs \<Rightarrow> if x = c then Some xs else None)"

section \<open>Strings\<close>

definition hex_val :: "char \<Rightarrow> nat option" where
  "hex_val c =
     (let n = of_char c in
      if 48 \<le> n \<and> n \<le> 57 then Some (n - 48)
      else if 97 \<le> n \<and> n \<le> 102 then Some (n - 87)
      else if 65 \<le> n \<and> n \<le> 70 then Some (n - 55)
      else None)"

definition hex4 :: "bytes \<Rightarrow> nat option" where
  "hex4 s =
     (case s of
        a # b # c # d # _ \<Rightarrow>
          (case (hex_val a, hex_val b, hex_val c, hex_val d) of
             (Some w, Some x, Some y, Some z) \<Rightarrow> Some (((w * 16 + x) * 16 + y) * 16 + z)
           | _ \<Rightarrow> None)
      | _ \<Rightarrow> None)"

definition encode_rune :: "nat \<Rightarrow> bytes" where
  "encode_rune r =
     (if r < 0x80 then [char_of r]
      else if r < 0x800 then [char_of (0xC0 + r div 64), char_of (0x80 + r mod 64)]
      else if r < 0x10000 then
        [char_of (0xE0 + r div 4096), char_of (0x80 + r div 64 mod 64), char_of (0x80 + r mod 64)]
      else
        [char_of (0xF0 + r div 262144), char_of (0x80 + r div 4096 mod 64),
         char_of (0x80 + r div 64 mod 64), char_of (0x80 + r mod 64)])"

definition replacement :: bytes where
  "replacement = [CHR 0xEF, CHR 0xBF, CHR 0xBD]"

text \<open>
  \<open>\u\<close> followed by four digits: a surrogate pair is one character, a lone surrogate is replaced.
\<close>

definition unicode_escape :: "bytes \<Rightarrow> (bytes \<times> bytes) option" where
  "unicode_escape s =
     (case hex4 s of
        None \<Rightarrow> None
      | Some r \<Rightarrow>
          (let rest = drop 4 s in
           if 0xD800 \<le> r \<and> r < 0xE000 then
             (case strip_prefix [CHR 0x5C, CHR ''u''] rest of
                None \<Rightarrow> Some (replacement, rest)
              | Some rest2 \<Rightarrow>
                  (case hex4 rest2 of
                     Some r2 \<Rightarrow>
                       (if r < 0xDC00 \<and> 0xDC00 \<le> r2 \<and> r2 < 0xE000
                        then Some (encode_rune ((r - 0xD800) * 1024 + (r2 - 0xDC00) + 0x10000), drop 4 rest2)
                        else Some (replacement, rest))
                   | None \<Rightarrow> Some (replacement, rest)))
           else Some (encode_rune r, rest)))"

text \<open>What follows a backslash.\<close>

definition escape :: "bytes \<Rightarrow> (bytes \<times> bytes) option" where
  "escape s =
     (case s of
        [] \<Rightarrow> None
      | c # cs \<Rightarrow>
          if c = CHR 0x22 \<or> c = CHR 0x5C \<or> c = CHR ''/'' then Some ([c], cs)
          else if c = CHR ''b'' then Some ([CHR 0x08], cs)
          else if c = CHR ''f'' then Some ([CHR 0x0C], cs)
          else if c = CHR ''n'' then Some ([CHR 0x0A], cs)
          else if c = CHR ''r'' then Some ([CHR 0x0D], cs)
          else if c = CHR ''t'' then Some ([CHR 0x09], cs)
          else if c = CHR ''u'' then unicode_escape cs
          else None)"

text \<open>The length of a valid UTF-8 sequence at the start of a text, zero if there is none.\<close>

definition cont :: "nat \<Rightarrow> bool" where
  "cont n \<longleftrightarrow> 0x80 \<le> n \<and> n \<le> 0xBF"

definition utf8_width :: "bytes \<Rightarrow> nat" where
  "utf8_width s =
     (case map of_char (take 4 s) of
        [] \<Rightarrow> 0
      | a # bs \<Rightarrow>
          if a < 0x80 then 1
          else if 0xC2 \<le> a \<and> a \<le> 0xDF then (case bs of b # _ \<Rightarrow> if cont b then 2 else 0 | _ \<Rightarrow> 0)
          else if 0xE0 \<le> a \<and> a \<le> 0xEF then
            (case bs of
               b # c # _ \<Rightarrow>
                 if cont b \<and> cont c \<and> (a = 0xE0 \<longrightarrow> 0xA0 \<le> b) \<and> (a = 0xED \<longrightarrow> b \<le> 0x9F) then 3 else 0
             | _ \<Rightarrow> 0)
          else if 0xF0 \<le> a \<and> a \<le> 0xF4 then
            (case bs of
               b # c # d # _ \<Rightarrow>
                 if cont b \<and> cont c \<and> cont d \<and> (a = 0xF0 \<longrightarrow> 0x90 \<le> b) \<and> (a = 0xF4 \<longrightarrow> b \<le> 0x8F) then 4 else 0
             | _ \<Rightarrow> 0)
          else 0)"

text \<open>One raw character of a string: an invalid byte is replaced.\<close>

definition raw_rune :: "bytes \<Rightarrow> bytes \<times> bytes" where
  "raw_rune s =
     (let w = utf8_width s in if w = 0 then (replacement, drop 1 s) else (take w s, drop w s))"

lemma unicode_escape_length: "unicode_escape s = Some (x, r) \<Longrightarrow> length r < length s"
proof -
  have four: "hex4 s = Some n \<Longrightarrow> 4 \<le> length s" for s n
    by (auto simp: hex4_def split: list.splits option.splits)
  assume "unicode_escape s = Some (x, r)"
  then show ?thesis
    by (auto simp: unicode_escape_def Let_def split: option.splits if_splits
        dest!: four strip_prefix_length)
qed

lemma escape_length: "escape s = Some (x, r) \<Longrightarrow> length r < length s"
  by (auto simp: escape_def split: list.splits if_splits dest: unicode_escape_length)

lemma raw_rune_length: "s \<noteq> [] \<Longrightarrow> length (snd (raw_rune s)) < length s"
  by (cases s) (auto simp: raw_rune_def Let_def)

text \<open>The rest of a string after its opening quote: the decoded text and what follows.\<close>

function str_chars :: "bytes \<Rightarrow> (bytes \<times> bytes) option" where
  "str_chars s =
     (case s of
        [] \<Rightarrow> None
      | c # cs \<Rightarrow>
          if c = CHR 0x22 then Some ([], cs)
          else if c = CHR 0x5C then
            (case escape cs of
               None \<Rightarrow> None
             | Some (x, r) \<Rightarrow> map_option (\<lambda>(t, q). (x @ t, q)) (str_chars r))
          else if c < CHR 0x20 then None
          else map_option (\<lambda>(t, q). (fst (raw_rune s) @ t, q)) (str_chars (snd (raw_rune s))))"
  by auto
termination
proof (relation "measure length", goal_cases)
  case 1
  then show ?case by simp
next
  case (2 s c cs p x r)
  then show ?case using escape_length [of cs x r] by simp
next
  case (3 s c cs)
  then show ?case using raw_rune_length [of s] by simp
qed

declare str_chars.simps [simp del]

section \<open>Numbers\<close>

definition scan_exp :: "string \<Rightarrow> bytes \<Rightarrow> (string \<times> bytes) option" where
  "scan_exp lit s =
     (case s of
        [] \<Rightarrow> Some (lit, [])
      | c # cs \<Rightarrow>
          if c = CHR ''e'' \<or> c = CHR ''E'' then
            (let sg = (if cs \<noteq> [] \<and> (hd cs = CHR ''+'' \<or> hd cs = CHR ''-'') then [hd cs] else []);
                 r = drop (length sg) cs;
                 ds = takeWhile is_digit r
             in if ds = [] then None else Some (lit @ c # sg @ ds, dropWhile is_digit r))
          else Some (lit, s))"

definition scan_frac :: "string \<Rightarrow> bytes \<Rightarrow> (string \<times> bytes) option" where
  "scan_frac lit s =
     (case s of
        [] \<Rightarrow> Some (lit, [])
      | c # cs \<Rightarrow>
          if c = CHR ''.'' then
            (let ds = takeWhile is_digit cs in
             if ds = [] then None else scan_exp (lit @ c # ds) (dropWhile is_digit cs))
          else scan_exp lit s)"

definition scan_number :: "bytes \<Rightarrow> (string \<times> bytes) option" where
  "scan_number s =
     (let sg = (if s \<noteq> [] \<and> hd s = CHR ''-'' then ''-'' else []);
          r = drop (length sg) s
      in case r of
           [] \<Rightarrow> None
         | c # cs \<Rightarrow>
             if c = CHR ''0'' then scan_frac (sg @ [c]) cs
             else if is_digit c then scan_frac (sg @ takeWhile is_digit r) (dropWhile is_digit r)
             else None)"

section \<open>Values\<close>

fun parse_value :: "nat \<Rightarrow> bytes \<Rightarrow> (json \<times> bytes) option"
and parse_elems :: "nat \<Rightarrow> bytes \<Rightarrow> (json list \<times> bytes) option"
and parse_members :: "nat \<Rightarrow> bytes \<Rightarrow> ((string \<times> json) list \<times> bytes) option" where
  "parse_value 0 s = None"
| "parse_value (Suc n) s =
     (case skip_ws s of
        [] \<Rightarrow> None
      | c # cs \<Rightarrow>
          if c = CHR 0x22 then map_option (\<lambda>(x, r). (JStr x, r)) (str_chars cs)
          else if c = CHR ''{'' then
            (case expect (CHR ''}'') cs of
               Some r \<Rightarrow> Some (JObj [], r)
             | None \<Rightarrow> map_option (\<lambda>(ms, r). (JObj ms, r)) (parse_members n cs))
          else if c = CHR ''['' then
            (case expect (CHR '']'') cs of
               Some r \<Rightarrow> Some (JArr [], r)
             | None \<Rightarrow> map_option (\<lambda>(xs, r). (JArr xs, r)) (parse_elems n cs))
          else if c = CHR ''t'' then map_option (\<lambda>r. (JBool True, r)) (strip_prefix ''rue'' cs)
          else if c = CHR ''f'' then map_option (\<lambda>r. (JBool False, r)) (strip_prefix ''alse'' cs)
          else if c = CHR ''n'' then map_option (\<lambda>r. (JNull, r)) (strip_prefix ''ull'' cs)
          else map_option (\<lambda>(l, r). (JNum l, r)) (scan_number (c # cs)))"
| "parse_elems 0 s = None"
| "parse_elems (Suc n) s =
     (case parse_value n s of
        None \<Rightarrow> None
      | Some (v, r) \<Rightarrow>
          (case expect (CHR '','') r of
             Some r1 \<Rightarrow> map_option (\<lambda>(vs, q). (v # vs, q)) (parse_elems n r1)
           | None \<Rightarrow> map_option (\<lambda>q. ([v], q)) (expect (CHR '']'') r)))"
| "parse_members 0 s = None"
| "parse_members (Suc n) s =
     (case expect (CHR 0x22) s of
        None \<Rightarrow> None
      | Some cs \<Rightarrow>
          (case str_chars cs of
             None \<Rightarrow> None
           | Some (k, r) \<Rightarrow>
               (case expect (CHR '':'') r of
                  None \<Rightarrow> None
                | Some r1 \<Rightarrow>
                    (case parse_value n r1 of
                       None \<Rightarrow> None
                     | Some (v, r2) \<Rightarrow>
                         (case expect (CHR '','') r2 of
                            Some r3 \<Rightarrow> map_option (\<lambda>(ms, q). ((k, v) # ms, q)) (parse_members n r3)
                          | None \<Rightarrow> map_option (\<lambda>q. ([(k, v)], q)) (expect (CHR ''}'') r2))))))"

text \<open>A value at the start of a text.\<close>

definition decode_value :: "bytes \<Rightarrow> (json \<times> bytes) option" where
  "decode_value s = parse_value (2 * length s + 1) s"

section \<open>Request structs\<close>

record transferRequestBody =
  b_From :: string
  b_To :: string
  b_AmountPaise :: "int option"
  b_IdempotencyKey :: string

record mintRequestBody =
  mb_WalletID :: string
  mb_AmountPaise :: "int option"
  mb_IdempotencyKey :: string

datatype decode_error = DecodeSyntax | DecodeType | DecodeUnknownField | DecodeTrailing

definition maxBodyBytes :: nat where
  "maxBodyBytes = 8192"

text \<open>
  Member names match without regard to case; the long s and the Kelvin sign fold to s and k.
\<close>

fun fold_name :: "bytes \<Rightarrow> bytes" where
  "fold_name [] = []"
| "fold_name (c # cs) =
     (case strip_prefix [CHR 0xC5, CHR 0xBF] (c # cs) of
        Some r \<Rightarrow> CHR ''s'' # fold_name (drop 1 cs)
      | None \<Rightarrow>
          (case strip_prefix [CHR 0xE2, CHR 0x84, CHR 0xAA] (c # cs) of
             Some r \<Rightarrow> CHR ''k'' # fold_name (drop 2 cs)
           | None \<Rightarrow> to_lower c # fold_name cs))"

text \<open>Storing a value in a \<open>string\<close> field and in an \<open>*int64\<close> field; \<open>null\<close> leaves a string alone.\<close>

definition set_string :: "json \<Rightarrow> string \<Rightarrow> decode_error + string" where
  "set_string v old = (case v of JStr x \<Rightarrow> Inr x | JNull \<Rightarrow> Inr old | _ \<Rightarrow> Inl DecodeType)"

definition set_int64 :: "json \<Rightarrow> decode_error + int option" where
  "set_int64 v =
     (case v of
        JNull \<Rightarrow> Inr None
      | JNum l \<Rightarrow> (case Atoi l of Some n \<Rightarrow> Inr (Some n) | None \<Rightarrow> Inl DecodeType)
      | _ \<Rightarrow> Inl DecodeType)"

text \<open>One member into a struct: the struct, and the first error so far.\<close>

definition keep_error :: "decode_error option \<Rightarrow> decode_error \<Rightarrow> decode_error option" where
  "keep_error err e = (case err of None \<Rightarrow> Some e | Some e0 \<Rightarrow> Some e0)"

fun transfer_member ::
  "string \<times> json \<Rightarrow> transferRequestBody \<times> decode_error option \<Rightarrow> transferRequestBody \<times> decode_error option" where
  "transfer_member (k, v) (b, err) =
     (let f = fold_name k in
      if f = ''from'' then
        (case set_string v (b_From b) of Inr x \<Rightarrow> (b\<lparr>b_From := x\<rparr>, err) | Inl e \<Rightarrow> (b, keep_error err e))
      else if f = ''to'' then
        (case set_string v (b_To b) of Inr x \<Rightarrow> (b\<lparr>b_To := x\<rparr>, err) | Inl e \<Rightarrow> (b, keep_error err e))
      else if f = ''amount_paise'' then
        (case set_int64 v of Inr x \<Rightarrow> (b\<lparr>b_AmountPaise := x\<rparr>, err) | Inl e \<Rightarrow> (b, keep_error err e))
      else if f = ''idempotency_key'' then
        (case set_string v (b_IdempotencyKey b) of
           Inr x \<Rightarrow> (b\<lparr>b_IdempotencyKey := x\<rparr>, err) | Inl e \<Rightarrow> (b, keep_error err e))
      else (b, keep_error err DecodeUnknownField))"

fun mint_member ::
  "string \<times> json \<Rightarrow> mintRequestBody \<times> decode_error option \<Rightarrow> mintRequestBody \<times> decode_error option" where
  "mint_member (k, v) (b, err) =
     (let f = fold_name k in
      if f = ''wallet_id'' then
        (case set_string v (mb_WalletID b) of Inr x \<Rightarrow> (b\<lparr>mb_WalletID := x\<rparr>, err) | Inl e \<Rightarrow> (b, keep_error err e))
      else if f = ''amount_paise'' then
        (case set_int64 v of Inr x \<Rightarrow> (b\<lparr>mb_AmountPaise := x\<rparr>, err) | Inl e \<Rightarrow> (b, keep_error err e))
      else if f = ''idempotency_key'' then
        (case set_string v (mb_IdempotencyKey b) of
           Inr x \<Rightarrow> (b\<lparr>mb_IdempotencyKey := x\<rparr>, err) | Inl e \<Rightarrow> (b, keep_error err e))
      else (b, keep_error err DecodeUnknownField))"

text \<open>
  \<open>decodeJSON\<close>: the first value of the (limited) body goes into \<open>dst\<close>, and nothing but white space
  may follow it. \<open>null\<close> decodes into any struct without effect.
\<close>

definition decodeJSON ::
  "(string \<times> json \<Rightarrow> 'b \<times> decode_error option \<Rightarrow> 'b \<times> decode_error option) \<Rightarrow> bytes \<Rightarrow> 'b \<Rightarrow> decode_error + 'b" where
  "decodeJSON member body dst =
     (case decode_value (take maxBodyBytes body) of
        None \<Rightarrow> Inl DecodeSyntax
      | Some (v, rest) \<Rightarrow>
          (case v of
             JNull \<Rightarrow> (if skip_ws rest = [] then Inr dst else Inl DecodeTrailing)
           | JObj ms \<Rightarrow>
               (case fold member ms (dst, None) of
                  (b, Some e) \<Rightarrow> Inl e
                | (b, None) \<Rightarrow> if skip_ws rest = [] then Inr b else Inl DecodeTrailing)
           | _ \<Rightarrow> Inl DecodeType))"

definition zero_transfer_body :: transferRequestBody where
  "zero_transfer_body = \<lparr>b_From = '''', b_To = '''', b_AmountPaise = None, b_IdempotencyKey = ''''\<rparr>"

definition zero_mint_body :: mintRequestBody where
  "zero_mint_body = \<lparr>mb_WalletID = '''', mb_AmountPaise = None, mb_IdempotencyKey = ''''\<rparr>"

definition decode_transfer :: "bytes \<Rightarrow> decode_error + transferRequestBody" where
  "decode_transfer body = decodeJSON transfer_member body zero_transfer_body"

definition decode_mint :: "bytes \<Rightarrow> decode_error + mintRequestBody" where
  "decode_mint body = decodeJSON mint_member body zero_mint_body"

section \<open>Lemmas: the fuel is enough\<close>

lemma skip_ws_length: "length (skip_ws s) \<le> length s"
  by (simp add: skip_ws_def length_dropWhile_le)

lemma expect_length: "expect c s = Some r \<Longrightarrow> length r < length s"
  using skip_ws_length [of s] by (auto simp: expect_def split: list.splits if_splits)

lemma str_chars_eqs:
  "str_chars [] = None"
  "str_chars (CHR 0x22 # cs) = Some ([], cs)"
  "str_chars (CHR 0x5C # cs) =
     (case escape cs of None \<Rightarrow> None | Some (x, r) \<Rightarrow> map_option (\<lambda>(t, q). (x @ t, q)) (str_chars r))"
  "c \<noteq> CHR 0x22 \<Longrightarrow> c \<noteq> CHR 0x5C \<Longrightarrow> str_chars (c # cs) =
     (if c < CHR 0x20 then None
      else map_option (\<lambda>(t, q). (fst (raw_rune (c # cs)) @ t, q)) (str_chars (snd (raw_rune (c # cs)))))"
  by (subst str_chars.simps, simp)+

lemma str_chars_length: "str_chars s = Some (x, r) \<Longrightarrow> length r < length s"
proof (induction s arbitrary: x r rule: str_chars.induct)
  case (1 s)
  show ?case
  proof (cases s)
    case Nil
    with "1.prems" show ?thesis by (simp add: str_chars_eqs)
  next
    case (Cons c cs)
    consider "c = CHR 0x22" | "c \<noteq> CHR 0x22" "c = CHR 0x5C" | "c \<noteq> CHR 0x22" "c \<noteq> CHR 0x5C" by blast
    then show ?thesis
    proof cases
      case 1
      with "1.prems" Cons show ?thesis by (simp add: str_chars_eqs)
    next
      case 2
      with "1.prems" Cons obtain y q t where e: "escape cs = Some (y, q)" "str_chars q = Some (t, r)"
        by (auto simp: str_chars_eqs split: option.splits)
      from "1.IH"(1) [OF Cons 2 e(1) refl e(2)] escape_length [OF e(1)] Cons show ?thesis by simp
    next
      case 3
      with "1.prems" Cons obtain t where e: "\<not> c < CHR 0x20" "str_chars (snd (raw_rune s)) = Some (t, r)"
        by (auto simp: str_chars_eqs split: if_splits)
      from "1.IH"(2) [OF Cons 3 e] raw_rune_length [of s] Cons show ?thesis by simp
    qed
  qed
qed

lemma scan_exp_length: "scan_exp l s = Some (x, r) \<Longrightarrow> length r \<le> length s"
  by (auto simp: scan_exp_def Let_def split: list.splits if_splits
      intro: le_SucI order_trans [OF length_dropWhile_le])

lemma scan_frac_length: "scan_frac l s = Some (x, r) \<Longrightarrow> length r \<le> length s"
  by (auto simp: scan_frac_def Let_def split: list.splits if_splits dest!: scan_exp_length
      intro: le_SucI order_trans [OF _ length_dropWhile_le])

lemma scan_number_length: "scan_number s = Some (x, r) \<Longrightarrow> length r < length s"
proof -
  assume a: "scan_number s = Some (x, r)"
  let ?r = "drop (length (if s \<noteq> [] \<and> hd s = CHR ''-'' then ''-'' else [])) s"
  from a obtain c cs where c: "?r = c # cs" by (auto simp: scan_number_def Let_def split: list.splits)
  then have "length cs < length s" by (metis diff_le_self le_imp_less_Suc length_Cons length_drop less_le_trans lessI)
  moreover have "is_digit c \<Longrightarrow> length (dropWhile is_digit (c # cs)) \<le> length cs" by (simp add: length_dropWhile_le)
  ultimately show ?thesis
    using a c by (auto simp: scan_number_def Let_def simp del: dropWhile.simps split: if_splits dest!: scan_frac_length)
qed

lemma parse_length:
  "parse_value n s = Some (v, r) \<Longrightarrow> length r < length s"
  "parse_elems n s = Some (vs, r) \<Longrightarrow> length r < length s"
  "parse_members n s = Some (ms, r) \<Longrightarrow> length r < length s"
proof (induction n s and n s and n s arbitrary: v r and vs r and ms r
    rule: parse_value_parse_elems_parse_members.induct)
  case (2 n s)
  show ?case
  proof (cases "skip_ws s")
    case Nil
    with "2.prems" show ?thesis by simp
  next
    case (Cons c cs)
    then have cs: "length cs < length s" using skip_ws_length [of s] by simp
    have "length r \<le> length cs"
      using "2.prems" "2.IH"(1) [OF Cons] "2.IH"(2) [OF Cons] Cons
      by (fastforce split: if_splits option.splits
          dest: str_chars_length expect_length strip_prefix_length scan_number_length)
    with cs show ?thesis by simp
  qed
next
  case (4 n s)
  then show ?case by (fastforce split: option.splits dest: expect_length)
next
  case (6 n s)
  then show ?case by (fastforce split: option.splits dest: expect_length str_chars_length)
qed simp_all

text \<open>Any fuel above twice the length of the text gives the same result.\<close>

lemma parse_fuel:
  "2 * length s < m \<Longrightarrow> 2 * length s < n \<Longrightarrow> parse_value m s = parse_value n s"
  "2 * length s + 1 < m \<Longrightarrow> 2 * length s + 1 < n \<Longrightarrow> parse_elems m s = parse_elems n s"
  "2 * length s < m \<Longrightarrow> 2 * length s < n \<Longrightarrow> parse_members m s = parse_members n s"
proof (induction m arbitrary: n s)
  case (Suc m)
  {
    case 1
    then obtain k where n: "n = Suc k" by (cases n) auto
    show ?case
    proof (cases "skip_ws s")
      case (Cons c cs)
      then have "length cs < length s" using skip_ws_length [of s] by simp
      then have "parse_members m cs = parse_members k cs" "parse_elems m cs = parse_elems k cs"
        using Suc.IH(2,3) [of cs k] 1 n by simp_all
      with Cons show ?thesis by (auto simp: n split: option.split)
    qed (simp add: n)
  next
    case 2
    then obtain k where n: "n = Suc k" by (cases n) auto
    have v: "parse_value m s = parse_value k s" using Suc.IH(1) [of s k] 2 n by simp
    have "parse_elems m r1 = parse_elems k r1" if "parse_value k s = Some (x, r)" "expect (CHR '','') r = Some r1" for x r r1
      using Suc.IH(2) [of r1 k] 2 n parse_length(1) [OF that(1)] expect_length [OF that(2)] by simp
    then show ?case by (auto simp: n v split: option.split)
  next
    case 3
    then obtain k where n: "n = Suc k" by (cases n) auto
    have v: "parse_value m r1 = parse_value k r1" if "length r1 < length s" for r1
      using Suc.IH(1) [of r1 k] 3 n that by simp
    have ms: "parse_members m r1 = parse_members k r1" if "length r1 < length s" for r1
      using Suc.IH(3) [of r1 k] 3 n that by simp
    show ?case
    proof (cases "\<exists>cs key r r1. expect (CHR 0x22) s = Some cs \<and> str_chars cs = Some (key, r) \<and> expect (CHR '':'') r = Some r1")
      case True
      then obtain cs key r r1 where p: "expect (CHR 0x22) s = Some cs" "str_chars cs = Some (key, r)" "expect (CHR '':'') r = Some r1"
        by blast
      then have l: "length r1 < length s" using expect_length str_chars_length by (meson less_trans)
      have "parse_members m r3 = parse_members k r3" if "parse_value k r1 = Some (x, r2)" "expect (CHR '','') r2 = Some r3" for x r2 r3
        using parse_length(1) [OF that(1)] expect_length [OF that(2)] l by (intro ms) simp
      with p v [OF l] show ?thesis by (auto simp: n split: option.split)
    next
      case False
      then show ?thesis by (auto simp: n split: option.split)
    qed
  }
qed simp_all

section \<open>Lemmas: encoded requests\<close>

text \<open>The encoding of a request that a client would send, over plain ASCII texts.\<close>

definition plain :: "char \<Rightarrow> bool" where
  "plain c \<longleftrightarrow> CHR 0x20 \<le> c \<and> c \<le> CHR 0x7E \<and> c \<noteq> CHR 0x22 \<and> c \<noteq> CHR 0x5C"

definition quoted :: "string \<Rightarrow> bytes" where
  "quoted s = CHR 0x22 # s @ [CHR 0x22]"

definition encode_transfer :: "transferRequestBody \<Rightarrow> bytes" where
  "encode_transfer b =
     ''{'' @ quoted ''from'' @ '':'' @ quoted (b_From b) @ '','' @
     quoted ''to'' @ '':'' @ quoted (b_To b) @ '','' @
     (case b_AmountPaise b of
        None \<Rightarrow> []
      | Some n \<Rightarrow> quoted ''amount_paise'' @ '':'' @ show_int n @ '','') @
     quoted ''idempotency_key'' @ '':'' @ quoted (b_IdempotencyKey b) @ ''}''"

lemma plain_rune: "plain c \<Longrightarrow> raw_rune (c # cs) = ([c], cs)"
proof -
  assume "plain c"
  then have "(of_char c :: nat) < 0x80" by (auto simp: plain_def less_eq_char_def)
  then show ?thesis by (simp add: raw_rune_def utf8_width_def Let_def)
qed

lemma str_chars_plain: "list_all plain s \<Longrightarrow> str_chars (s @ CHR 0x22 # r) = Some (s, r)"
proof (induction s)
  case Nil
  then show ?case by (simp add: str_chars_eqs)
next
  case (Cons c s)
  then have "plain c" "\<not> c < CHR 0x20" "c \<noteq> CHR 0x22" "c \<noteq> CHR 0x5C" by (auto simp: plain_def)
  with Cons show ?case by (simp add: str_chars_eqs plain_rune)
qed

lemma skip_ws_simps [simp]: "skip_ws [] = []" "\<not> is_ws c \<Longrightarrow> skip_ws (c # cs) = c # cs"
  by (simp_all add: skip_ws_def)

lemma parse_quoted: "list_all plain s \<Longrightarrow> parse_value (Suc n) (quoted s @ r) = Some (JStr s, r)"
  by (simp add: quoted_def str_chars_plain is_ws_def)

lemma show_nat_zero: "show_nat n = CHR ''0'' # cs \<Longrightarrow> n = 0 \<and> cs = []"
proof (induction n arbitrary: cs rule: show_nat.induct)
  case (1 n)
  show ?case
  proof (cases "n < 10")
    case True
    then have "show_nat n = [digit_char n]" by (subst show_nat.simps) simp
    with 1 have "digit_char n = CHR ''0''" "cs = []" by simp_all
    then have "of_char (digit_char n) = (48 :: nat)" by simp
    with True \<open>cs = []\<close> show ?thesis by (simp add: digit_char_code)
  next
    case False
    then have eq: "show_nat n = show_nat (n div 10) @ [digit_char (n mod 10)]" by (subst show_nat.simps) simp
    have "show_nat (n div 10) \<noteq> []" by (subst show_nat.simps) simp
    with eq "1.prems" obtain ds where "show_nat (n div 10) = CHR ''0'' # ds" by (cases "show_nat (n div 10)") auto
    from "1.IH" [OF False this] have "n div 10 = 0" by simp
    with False show ?thesis by (simp add: div_eq_0_iff)
  qed
qed

lemma scan_frac_end: "c = CHR '','' \<or> c = CHR ''}'' \<Longrightarrow> scan_frac l (c # r) = Some (l, c # r)"
  by (auto simp: scan_frac_def scan_exp_def)

lemma takeWhile_digits:
  assumes "list_all is_digit ds" and "\<not> is_digit c"
  shows "takeWhile is_digit (ds @ c # r) = ds" "dropWhile is_digit (ds @ c # r) = c # r"
  using assms by (induction ds) simp_all

lemma scan_show_nat:
  assumes "c = CHR '','' \<or> c = CHR ''}''" and "sg = '''' \<or> sg = ''-''"
  shows "scan_number (sg @ show_nat n @ c # r) = Some (sg @ show_nat n, c # r)"
proof -
  obtain d ds where s: "show_nat n = d # ds" by (cases "show_nat n") (auto simp: show_nat.simps [of n] split: if_splits)
  have dig: "list_all is_digit (d # ds)" using s by (metis list_all_iff show_nat_digits)
  then have "is_digit d" "d \<noteq> CHR ''-''" by (auto simp: is_digit_def)
  have nd: "\<not> is_digit c" using assms(1) by (auto simp: is_digit_def)
  note tw = takeWhile_digits [OF dig nd, of r]
  show ?thesis
  proof (cases "d = CHR ''0''")
    case True
    with show_nat_zero [of n ds] s have "ds = []" by simp
    with True s assms scan_frac_end show ?thesis by (auto simp: scan_number_def Let_def)
  next
    case False
    with s assms(2) tw \<open>is_digit d\<close> \<open>d \<noteq> CHR ''-''\<close> scan_frac_end [OF assms(1)] show ?thesis
      by (auto simp: scan_number_def Let_def simp del: takeWhile.simps dropWhile.simps)
  qed
qed

lemma parse_show_int:
  assumes "c = CHR '','' \<or> c = CHR ''}''"
  shows "parse_value (Suc n) (show_int i @ c # r) = Some (JNum (show_int i), c # r)"
proof -
  have sc: "scan_number (show_int i @ c # r) = Some (show_int i, c # r)"
    using scan_show_nat [OF assms, of "''-''" "nat (- i)" r] scan_show_nat [OF assms, of "''''" "nat i" r]
    by (auto simp: show_int_def)
  have "show_nat k \<noteq> []" for k by (subst show_nat.simps) simp
  then have "show_int i \<noteq> []" by (simp add: show_int_def)
  then obtain d ds where s: "show_int i = d # ds" by (cases "show_int i") simp_all
  have "is_digit d \<or> d = CHR ''-''" using show_int_chars [of d i] s by simp
  then have "\<not> is_ws d" "d \<noteq> CHR 0x22" "d \<noteq> CHR ''{''" "d \<noteq> CHR ''[''" "d \<noteq> CHR ''t''" "d \<noteq> CHR ''f''" "d \<noteq> CHR ''n''"
    by (auto simp: is_digit_def is_ws_def)
  with sc s show ?thesis by simp
qed

lemma expect_simps [simp]:
  "\<not> is_ws c \<Longrightarrow> expect c (c # r) = Some r" "\<not> is_ws d \<Longrightarrow> d \<noteq> c \<Longrightarrow> expect c (d # r) = None"
  by (simp_all add: expect_def)

lemma not_ws [simp]:
  "\<not> is_ws (CHR 0x22)" "\<not> is_ws (CHR '','')" "\<not> is_ws (CHR ''}'')" "\<not> is_ws (CHR ''{'')" "\<not> is_ws (CHR '':'')"
  by (simp_all add: is_ws_def)

lemma members_more:
  assumes "list_all plain k" and "parse_value n (v @ CHR '','' # r) = Some (x, CHR '','' # r)"
  shows "parse_members (Suc n) (quoted k @ CHR '':'' # v @ CHR '','' # r) =
    map_option (\<lambda>(ms, q). ((k, x) # ms, q)) (parse_members n r)"
  using assms by (simp add: quoted_def str_chars_plain)

lemma members_last:
  assumes "list_all plain k" and "parse_value n (v @ CHR ''}'' # r) = Some (x, CHR ''}'' # r)"
  shows "parse_members (Suc n) (quoted k @ CHR '':'' # v @ CHR ''}'' # r) = Some ([(k, x)], r)"
  using assms by (simp add: quoted_def str_chars_plain)

lemma plain_names [simp]:
  "list_all plain ''from''" "list_all plain ''to''" "list_all plain ''amount_paise''" "list_all plain ''idempotency_key''"
  by (simp_all add: plain_def)

section \<open>Properties\<close>

lemma encoded_members:
  assumes "list_all plain (b_From b)" and "list_all plain (b_To b)" and "list_all plain (b_IdempotencyKey b)"
    and "b_AmountPaise b = Some n"
  shows "parse_value (Suc (Suc (Suc (Suc (Suc (Suc m)))))) (encode_transfer b @ r) =
    Some (JObj [(''from'', JStr (b_From b)), (''to'', JStr (b_To b)), (''amount_paise'', JNum (show_int n)),
                (''idempotency_key'', JStr (b_IdempotencyKey b))], r)"
proof -
  let ?k = "quoted ''idempotency_key'' @ CHR '':'' # quoted (b_IdempotencyKey b) @ CHR ''}'' # r"
  let ?a = "quoted ''amount_paise'' @ CHR '':'' # show_int n @ CHR '','' # ?k"
  let ?t = "quoted ''to'' @ CHR '':'' # quoted (b_To b) @ CHR '','' # ?a"
  let ?f = "quoted ''from'' @ CHR '':'' # quoted (b_From b) @ CHR '','' # ?t"
  have e: "encode_transfer b @ r = CHR ''{'' # ?f" by (simp add: encode_transfer_def assms(4))
  have k: "parse_members (Suc (Suc m)) ?k = Some ([(''idempotency_key'', JStr (b_IdempotencyKey b))], r)"
    by (intro members_last plain_names parse_quoted assms(3))
  have a: "parse_members (Suc (Suc (Suc m))) ?a =
      Some ([(''amount_paise'', JNum (show_int n)), (''idempotency_key'', JStr (b_IdempotencyKey b))], r)"
    using members_more [OF plain_names(3), of "Suc (Suc m)" "show_int n" ?k "JNum (show_int n)"]
      parse_show_int [of "CHR '',''" "Suc m" n ?k] k
    by (simp del: parse_members.simps parse_value.simps)
  have t: "parse_members (Suc (Suc (Suc (Suc m)))) ?t =
      Some ([(''to'', JStr (b_To b)), (''amount_paise'', JNum (show_int n)), (''idempotency_key'', JStr (b_IdempotencyKey b))], r)"
    using members_more [OF plain_names(2), of "Suc (Suc (Suc m))" "quoted (b_To b)" ?a "JStr (b_To b)"]
      parse_quoted [OF assms(2), of "Suc (Suc m)" "CHR '','' # ?a"] a
    by (simp del: parse_members.simps parse_value.simps)
  have f: "parse_members (Suc (Suc (Suc (Suc (Suc m))))) ?f =
      Some ([(''from'', JStr (b_From b)), (''to'', JStr (b_To b)), (''amount_paise'', JNum (show_int n)),
             (''idempotency_key'', JStr (b_IdempotencyKey b))], r)"
    using members_more [OF plain_names(1), of "Suc (Suc (Suc (Suc m)))" "quoted (b_From b)" ?t "JStr (b_From b)"]
      parse_quoted [OF assms(1), of "Suc (Suc (Suc m))" "CHR '','' # ?t"] t
    by (simp del: parse_members.simps parse_value.simps)
  have "expect (CHR ''}'') ?f = None" by (simp add: quoted_def)
  then show ?thesis unfolding e parse_value.simps(2) using f by (simp del: parse_members.simps)
qed

lemma fold_names [simp]:
  "fold_name ''from'' = ''from''" "fold_name ''to'' = ''to''" "fold_name ''amount_paise'' = ''amount_paise''"
  "fold_name ''idempotency_key'' = ''idempotency_key''"
  by code_simp+

lemma skip_ws_only: "list_all is_ws ws \<Longrightarrow> skip_ws ws = []"
  by (simp add: skip_ws_def list_all_iff)

text \<open>An encoded request, white space after it, and beyond the limit anything.\<close>

lemma decode_padded:
  assumes "list_all plain (b_From b)" and "list_all plain (b_To b)" and "list_all plain (b_IdempotencyKey b)"
    and "b_AmountPaise b = Some n" and "in_int64 n" and "list_all is_ws pad"
    and "length (encode_transfer b @ pad) \<le> maxBodyBytes" and "junk = [] \<or> length (encode_transfer b @ pad) = maxBodyBytes"
  shows "decode_transfer (encode_transfer b @ pad @ junk) = Inr b"
proof -
  let ?e = "encode_transfer b @ pad"
  have "6 \<le> 2 * length ?e + 1" by (simp add: encode_transfer_def quoted_def)
  then obtain m where m: "2 * length ?e + 1 = Suc (Suc (Suc (Suc (Suc (Suc m)))))"
    by (intro that [of "2 * length ?e + 1 - 6"]) simp
  have "take maxBodyBytes (encode_transfer b @ pad @ junk) = ?e" using assms(7,8) by auto
  then have v: "decode_value (take maxBodyBytes (encode_transfer b @ pad @ junk)) =
      Some (JObj [(''from'', JStr (b_From b)), (''to'', JStr (b_To b)), (''amount_paise'', JNum (show_int n)),
                  (''idempotency_key'', JStr (b_IdempotencyKey b))], pad)"
    unfolding decode_value_def using encoded_members [OF assms(1-4), of m pad] m by simp
  show ?thesis
    unfolding decode_transfer_def decodeJSON_def v
    using assms(4) Atoi_show_int [OF assms(5)] skip_ws_only [OF assms(6)]
    by (simp add: set_string_def set_int64_def zero_transfer_body_def
        Let_def del: fold_name.simps)
qed

lemma decode_encoded:
  assumes "list_all plain (b_From b)" and "list_all plain (b_To b)" and "list_all plain (b_IdempotencyKey b)"
    and "b_AmountPaise b = Some n" and "in_int64 n" and "length (encode_transfer b) \<le> maxBodyBytes"
  shows "decode_transfer (encode_transfer b) = Inr b"
  using decode_padded [OF assms(1-5), of "[]" "[]"] assms(6) by simp

text \<open>
  C27: Round trip: the JSON encoding of a transfer request over plain ASCII texts, with any
  \<open>int64\<close> amount and within the size limit, decodes to exactly that request.
\<close>

theorem transfer_body_roundtrip:
  assumes "list_all plain (b_From b)" and "list_all plain (b_To b)" and "list_all plain (b_IdempotencyKey b)"
    and "b_AmountPaise b = Some n" and "in_int64 n" and "length (encode_transfer b) \<le> maxBodyBytes"
  shows "decode_transfer (encode_transfer b) = Inr b"
  using assms by (rule decode_encoded)

theorem transfer_body_roundtrip_witness:
  "decode_transfer (encode_transfer \<lparr>b_From = ''a1'', b_To = ''b2'', b_AmountPaise = Some 250, b_IdempotencyKey = ''k-1''\<rparr>) =
     Inr \<lparr>b_From = ''a1'', b_To = ''b2'', b_AmountPaise = Some 250, b_IdempotencyKey = ''k-1''\<rparr>"
proof -
  let ?b = "\<lparr>b_From = ''a1'', b_To = ''b2'', b_AmountPaise = Some 250, b_IdempotencyKey = ''k-1''\<rparr>"
  have "length (encode_transfer ?b) \<le> maxBodyBytes" by code_simp
  then show ?thesis
    by (intro transfer_body_roundtrip [of ?b 250])
      (simp_all add: plain_def in_int64_def int64_min_def int64_max_def)
qed

definition known_fields :: "string list" where
  "known_fields = [''from'', ''to'', ''amount_paise'', ''idempotency_key'']"

text \<open>A member that is a field of the transfer request, with an amount that is an integer literal in range.\<close>

definition strict_member :: "string \<times> json \<Rightarrow> bool" where
  "strict_member m =
     (case m of (k, x) \<Rightarrow>
        fold_name k \<in> set known_fields \<and>
        (fold_name k = ''amount_paise'' \<longrightarrow>
           (case x of JNull \<Rightarrow> True | JNum l \<Rightarrow> Atoi l \<noteq> None | _ \<Rightarrow> False)))"

lemma transfer_member_strict:
  assumes "transfer_member m (b0, err) = (b1, None)"
  shows "err = None \<and> strict_member m"
  using assms
  by (cases m) (auto simp: strict_member_def known_fields_def Let_def keep_error_def set_int64_def
      split: if_splits sum.splits option.splits json.splits dest: sym [where s = "Some _"])

lemma members_strict:
  assumes "fold transfer_member ms (b0, err) = (b, None)"
  shows "err = None \<and> list_all strict_member ms"
  using assms
proof (induction ms arbitrary: b0 err)
  case (Cons m ms)
  obtain b1 err1 where s: "transfer_member m (b0, err) = (b1, err1)" by fastforce
  with Cons.prems have "fold transfer_member ms (b1, err1) = (b, None)" by simp
  from Cons.IH [OF this] transfer_member_strict [of m b0 err b1] s show ?case by simp
qed simp

text \<open>
  The amount that the members give: that of the last member of this name, none when there is no
  such member or it is \<open>null\<close>.
\<close>

definition given_amount :: "(string \<times> json) list \<Rightarrow> paise option" where
  "given_amount ms =
     (case rev (filter (\<lambda>(k, x). fold_name k = ''amount_paise'') ms) of
        (k, JNum l) # _ \<Rightarrow> Atoi l
      | _ \<Rightarrow> None)"

lemma amount_given:
  assumes "fold transfer_member ms (zero_transfer_body, None) = (b, None)"
  shows "b_AmountPaise b = given_amount ms"
  using assms
proof (induction ms arbitrary: b rule: rev_induct)
  case Nil
  then show ?case by (auto simp: given_amount_def zero_transfer_body_def)
next
  case (snoc m ms)
  obtain b1 e where f: "fold transfer_member ms (zero_transfer_body, None) = (b1, e)" by fastforce
  obtain k x where m: "m = (k, x)" by fastforce
  from snoc.prems f have step: "transfer_member (k, x) (b1, e) = (b, None)" by (simp add: m)
  then have "e = None" using transfer_member_strict by blast
  with snoc.IH f have "b_AmountPaise b1 = given_amount ms" by simp
  with step \<open>e = None\<close> show ?case
    by (auto simp: m given_amount_def set_int64_def Let_def keep_error_def
        split: if_splits sum.splits option.splits json.splits)
qed

lemma given_amount_bounds: "given_amount ms = Some n \<Longrightarrow> in_int64 n"
  by (auto simp: given_amount_def split: list.splits prod.splits json.splits dest: Atoi_bounds)

text \<open>
  C26: Decoding is strict in what it reads, the first 8192 bytes. When a body is accepted, that part
  is one JSON value with only white space after it, \<open>null\<close> or an object all of whose members are
  fields of the request; the amount is the integer literal that the body gives, in the range of
  \<open>int64\<close>, and there is none when the body gives none or \<open>null\<close>. So a misspelled field or a
  fractional amount never becomes a transfer. A body within the limit is read completely; of a
  longer one the rest is never looked at.
\<close>

theorem decode_is_strict:
  assumes "decode_transfer body = Inr b"
  shows "\<exists>v rest. decode_value (take 8192 body) = Some (v, rest) \<and> skip_ws rest = [] \<and>
    (v = JNull \<and> b = zero_transfer_body \<or>
     (\<exists>ms. v = JObj ms \<and> list_all strict_member ms \<and> b_AmountPaise b = given_amount ms)) \<and>
    (\<forall>n. b_AmountPaise b = Some n \<longrightarrow> in_int64 n) \<and>
    (length body \<le> 8192 \<longrightarrow> decode_value body = Some (v, rest)) \<and>
    (8192 \<le> length body \<longrightarrow> (\<forall>junk. decode_transfer (body @ junk) = Inr b))"
proof -
  from assms obtain v rest where v: "decode_value (take 8192 body) = Some (v, rest)"
    by (auto simp: decode_transfer_def decodeJSON_def maxBodyBytes_def split: option.splits)
  have junk: "8192 \<le> length body \<longrightarrow> (\<forall>junk. decode_transfer (body @ junk) = Inr b)"
    using assms by (simp add: decode_transfer_def decodeJSON_def maxBodyBytes_def)
  show ?thesis
  proof (cases v)
    case JNull
    with assms v junk show ?thesis
      by (auto simp: decode_transfer_def decodeJSON_def maxBodyBytes_def zero_transfer_body_def split: if_splits)
  next
    case (JObj ms)
    obtain b1 e where f: "fold transfer_member ms (zero_transfer_body, None) = (b1, e)" by fastforce
    with assms v JObj have r: "e = None" "skip_ws rest = []" "b1 = b"
      by (auto simp: decode_transfer_def decodeJSON_def maxBodyBytes_def split: option.splits if_splits)
    have a: "b_AmountPaise b = given_amount ms" using amount_given f r by simp
    with given_amount_bounds members_strict [OF f [unfolded r(1)]] v JObj r junk show ?thesis by auto
  qed (use assms v in \<open>auto simp: decode_transfer_def decodeJSON_def maxBodyBytes_def\<close>)
qed

theorem decode_is_strict_witness:
  "\<exists>rest ms. decode_value (''{'' @ quoted ''Amount_Paise'' @ '':5} '') = Some (JObj ms, rest) \<and>
     list_all strict_member ms \<and> given_amount ms = Some 5"
proof -
  have "decode_transfer (''{'' @ quoted ''Amount_Paise'' @ '':5} '') = Inr (zero_transfer_body\<lparr>b_AmountPaise := Some 5\<rparr>)"
    by code_simp
  from decode_is_strict [OF this] show ?thesis by (auto simp: quoted_def zero_transfer_body_def)
qed

text \<open>
  The limit hides what follows it: a request padded with blanks up to the limit is accepted with
  anything at all after it, although the decoder means to refuse a second value.
\<close>

theorem oversized_body_accepted:
  assumes "list_all plain (b_From b)" and "list_all plain (b_To b)" and "list_all plain (b_IdempotencyKey b)"
    and "b_AmountPaise b = Some n" and "in_int64 n" and "length (encode_transfer b) \<le> maxBodyBytes"
  shows "decode_transfer (encode_transfer b @ replicate (maxBodyBytes - length (encode_transfer b)) (CHR '' '') @ junk) = Inr b"
proof (rule decode_padded [OF assms(1-5)])
  show "list_all is_ws (replicate (maxBodyBytes - length (encode_transfer b)) (CHR '' ''))"
    by (simp add: list_all_iff is_ws_def)
qed (use assms(6) in simp_all)

end
