(* ===== verification/Http.thy ===== *)
theory Http
  imports Observability Json_Decode
begin

text \<open>
  What the API uses of \<open>net/http\<close>: requests, response writers, and the matching of \<open>ServeMux\<close> on
  the routing table of \<open>server.go\<close>; then the status recorder of \<open>middleware.go\<close> and the two
  helpers \<open>writeJSON\<close> and \<open>writeError\<close>, which work on any response writer. The interface of a
  response writer is a locale with two instances: the server's own writer and the recorder.
\<close>

section \<open>Requests and documents\<close>

record request =
  Method :: string
  Path :: string
  Header :: "string \<Rightarrow> string"
  Query :: "string \<Rightarrow> string"
  Body :: bytes
  Pattern :: string
  PathID :: string
  Context :: ctx

text \<open>Messages; \<open>ParseFailed\<close> is a prefix with the text of a decoding error.\<close>

datatype message = Text string | ParseFailed string decode_error

text \<open>
  The documents the service writes. \<open>Raw\<close> is text that is not the encoding of a value.
\<close>

datatype document =
    ErrorBody string message string
  | WalletBody Wallet
  | TransferBody Transfer
  | InvariantsBody Invariants
  | HealthBody string string int
  | ReadyBody
  | DegradedBody error
  | IndexBody string string string "(string \<times> string) list"
  | LogsBody nat nat "bytes list"
  | Raw bytes

section \<open>Response writers\<close>

text \<open>
  The writer of the server: the first \<open>WriteHeader\<close> fixes the status, a \<open>Write\<close> before it
  implies 200. \<open>w_status\<close> is 0 as long as nothing was sent.
\<close>

record http_writer =
  w_header :: "string \<Rightarrow> string option"
  w_status :: int
  w_body :: "document list"

definition new_writer :: http_writer where
  "new_writer = \<lparr>w_header = Map.empty, w_status = 0, w_body = []\<rparr>"

definition http_Set :: "string \<Rightarrow> string \<Rightarrow> http_writer \<Rightarrow> http_writer" where
  "http_Set k v w = w\<lparr>w_header := (w_header w)(k \<mapsto> v)\<rparr>"

definition http_WriteHeader :: "int \<Rightarrow> http_writer \<Rightarrow> http_writer" where
  "http_WriteHeader code w = (if w_status w = 0 then w\<lparr>w_status := code\<rparr> else w)"

definition http_Write :: "document \<Rightarrow> http_writer \<Rightarrow> http_writer" where
  "http_Write d w =
     (let w1 = (if w_status w = 0 then w\<lparr>w_status := 200\<rparr> else w) in w1\<lparr>w_body := w_body w1 @ [d]\<rparr>)"

text \<open>
  \<open>statusRecorder\<close>. The number of bytes is that of the documents written, so the recorder keeps
  the documents themselves.
\<close>

record statusRecorder =
  ResponseWriter :: http_writer
  status :: int
  written :: "document list"

definition new_recorder :: "http_writer \<Rightarrow> statusRecorder" where
  "new_recorder w = \<lparr>ResponseWriter = w, status = 0, written = []\<rparr>"

definition rec_Set :: "string \<Rightarrow> string \<Rightarrow> statusRecorder \<Rightarrow> statusRecorder" where
  "rec_Set k v w = w\<lparr>ResponseWriter := http_Set k v (ResponseWriter w)\<rparr>"

definition rec_WriteHeader :: "int \<Rightarrow> statusRecorder \<Rightarrow> statusRecorder" where
  "rec_WriteHeader code w =
     (if status w = 0
      then w\<lparr>status := code, ResponseWriter := http_WriteHeader code (ResponseWriter w)\<rparr>
      else w)"

definition rec_Write :: "document \<Rightarrow> statusRecorder \<Rightarrow> statusRecorder" where
  "rec_Write d w =
     (let w1 = (if status w = 0 then w\<lparr>status := 200\<rparr> else w) in
      w1\<lparr>ResponseWriter := http_Write d (ResponseWriter w1), written := written w1 @ [d]\<rparr>)"

text \<open>\<open>writeJSON\<close> over the three methods of the interface \<open>http.ResponseWriter\<close>.\<close>

definition json_type :: string where
  "json_type = ''application/json; charset=utf-8''"

definition writeJSON_on ::
  "(string \<Rightarrow> string \<Rightarrow> 'w \<Rightarrow> 'w) \<Rightarrow> (int \<Rightarrow> 'w \<Rightarrow> 'w) \<Rightarrow> (document \<Rightarrow> 'w \<Rightarrow> 'w) \<Rightarrow> int \<Rightarrow> document \<Rightarrow> 'w \<Rightarrow> 'w" where
  "writeJSON_on set_h write_h write_b st v w = write_b v (write_h st (set_h ''Content-Type'' json_type w))"

definition writeJSON :: "int \<Rightarrow> document \<Rightarrow> statusRecorder \<Rightarrow> statusRecorder" where
  "writeJSON = writeJSON_on rec_Set rec_WriteHeader rec_Write"

definition http_writeJSON :: "int \<Rightarrow> document \<Rightarrow> http_writer \<Rightarrow> http_writer" where
  "http_writeJSON = writeJSON_on http_Set http_WriteHeader http_Write"

definition error_body :: "request \<Rightarrow> string \<Rightarrow> message \<Rightarrow> document" where
  "error_body r code msg = ErrorBody code msg (CorrelationID (Context r))"

definition writeError :: "request \<Rightarrow> int \<Rightarrow> string \<Rightarrow> message \<Rightarrow> statusRecorder \<Rightarrow> statusRecorder" where
  "writeError r st code msg w = writeJSON st (error_body r code msg) w"

section \<open>Routing\<close>

text \<open>The segments of a path; \<open>ServeMux\<close> first redirects a path that is not clean.\<close>

fun segments :: "string \<Rightarrow> string list" where
  "segments [] = [[]]"
| "segments (c # cs) =
     (if c = CHR ''/'' then [] # segments cs
      else case segments cs of x # xs \<Rightarrow> (c # x) # xs | [] \<Rightarrow> [[c]])"

definition clean_step :: "string list \<Rightarrow> string \<Rightarrow> string list" where
  "clean_step acc x =
     (if x = [] \<or> x = ''.'' then acc else if x = ''..'' then butlast acc else acc @ [x])"

definition clean_segments :: "string \<Rightarrow> string list" where
  "clean_segments p =
     (let xs = segments p; ys = foldl clean_step [] xs in
      if ys = [] then [[]] else if last xs = [] then ys @ [[]] else ys)"

definition cleanPath :: "string \<Rightarrow> string" where
  "cleanPath p = concat (map (\<lambda>x. CHR ''/'' # x) (clean_segments p))"

datatype route =
    RCreateWallet | RGetWallet | RCreateTransfer | RGetTransfer | RMint | RHealth | RReady | RInvariants
  | RMetrics | RLogStream | RLogsRecent | RLogViewer | RDashboard | RIndex

text \<open>The routing table: method, path of the pattern as segments (\<open>None\<close> is \<open>{id}\<close>), handler.\<close>

definition routes :: "(string \<times> string \<times> string option list \<times> route) list" where
  "routes =
     [(''POST'', ''POST /wallets'', [Some ''wallets''], RCreateWallet),
      (''GET'', ''GET /wallets/{id}'', [Some ''wallets'', None], RGetWallet),
      (''POST'', ''POST /transfers'', [Some ''transfers''], RCreateTransfer),
      (''GET'', ''GET /transfers/{id}'', [Some ''transfers'', None], RGetTransfer),
      (''POST'', ''POST /admin/mint'', [Some ''admin'', Some ''mint''], RMint),
      (''GET'', ''GET /healthz'', [Some ''healthz''], RHealth),
      (''GET'', ''GET /readyz'', [Some ''readyz''], RReady),
      (''GET'', ''GET /invariants'', [Some ''invariants''], RInvariants),
      (''GET'', ''GET /metrics'', [Some ''metrics''], RMetrics),
      (''GET'', ''GET /logs/stream'', [Some ''logs'', Some ''stream''], RLogStream),
      (''GET'', ''GET /logs/recent'', [Some ''logs'', Some ''recent''], RLogsRecent),
      (''GET'', ''GET /logs'', [Some ''logs''], RLogViewer),
      (''GET'', ''GET /dashboard'', [Some ''dashboard''], RDashboard),
      (''GET'', ''GET /{$}'', [Some ''''], RIndex)]"

fun match_path :: "string option list \<Rightarrow> string list \<Rightarrow> string option" where
  "match_path [] [] = Some ''''"
| "match_path (Some p # ps) (x # xs) = (if p = x then match_path ps xs else None)"
| "match_path (None # ps) (x # xs) = (if x = [] then None else case match_path ps xs of None \<Rightarrow> None | Some _ \<Rightarrow> Some x)"
| "match_path _ _ = None"

text \<open>A \<open>GET\<close> pattern also matches \<open>HEAD\<close>.\<close>

definition method_matches :: "string \<Rightarrow> string \<Rightarrow> bool" where
  "method_matches pat m \<longleftrightarrow> m = pat \<or> (pat = ''GET'' \<and> m = ''HEAD'')"

definition lookup_route :: "string \<Rightarrow> string list \<Rightarrow> (string \<times> string \<times> route) option" where
  "lookup_route m xs =
     first_some (map (\<lambda>(pm, text, ps, h).
       if method_matches pm m then map_option (\<lambda>i. (text, i, h)) (match_path ps xs) else None) routes)"

datatype mux_result = Matched string string route | Redirect string | MethodNotAllowed | NotFound

definition mux_find :: "string \<Rightarrow> string \<Rightarrow> mux_result" where
  "mux_find m p =
     (let xs = clean_segments p in
      case lookup_route m xs of
        Some (text, i, h) \<Rightarrow> if cleanPath p \<noteq> p then Redirect text else Matched text i h
      | None \<Rightarrow>
          if cleanPath p \<noteq> p then Redirect ''''
          else if \<exists>(pm, text, ps, h) \<in> set routes. match_path ps xs \<noteq> None then MethodNotAllowed
          else NotFound)"

text \<open>\<open>routeLabel\<close>: the path part of the matched pattern.\<close>

definition routeLabel :: "request \<Rightarrow> string" where
  "routeLabel r =
     (if Pattern r \<noteq> '''' then
        (let d = dropWhile (\<lambda>c. c \<noteq> CHR ''/'') (Pattern r) in if d \<noteq> [] then d else Pattern r)
      else ''unmatched'')"

definition isNoisyRoute :: "string \<Rightarrow> bool" where
  "isNoisyRoute route \<longleftrightarrow>
     route \<in> set [''/metrics'', ''/logs'', ''/logs/stream'', ''/logs/recent'', ''/healthz'', ''/'', ''/dashboard'']"

section \<open>Lemmas: response writers\<close>

locale response_writer =
  fixes set_h :: "string \<Rightarrow> string \<Rightarrow> 'w \<Rightarrow> 'w" and write_h :: "int \<Rightarrow> 'w \<Rightarrow> 'w" and write_b :: "document \<Rightarrow> 'w \<Rightarrow> 'w"
    and status_of :: "'w \<Rightarrow> int" and header_of :: "'w \<Rightarrow> string \<Rightarrow> string option" and body_of :: "'w \<Rightarrow> document list"
  assumes status_laws: "status_of (set_h k v w) = status_of w"
      "c \<noteq> 0 \<Longrightarrow> status_of (write_h c w) = (if status_of w = 0 then c else status_of w)"
      "status_of (write_b d w) = (if status_of w = 0 then 200 else status_of w)"
    and header_laws: "header_of (set_h k v w) = (header_of w)(k \<mapsto> v)"
      "header_of (write_h c w) = header_of w" "header_of (write_b d w) = header_of w"
    and body_laws: "body_of (set_h k v w) = body_of w" "body_of (write_h c w) = body_of w"
      "body_of (write_b d w) = body_of w @ [d]"
begin

text \<open>A document is sent with the status, unless another status was sent before.\<close>

lemma writeJSON_reply:
  assumes "st \<noteq> 0"
  shows "status_of (writeJSON_on set_h write_h write_b st v w) = (if status_of w = 0 then st else status_of w)"
    and "header_of (writeJSON_on set_h write_h write_b st v w) = (header_of w)(''Content-Type'' \<mapsto> json_type)"
    and "body_of (writeJSON_on set_h write_h write_b st v w) = body_of w @ [v]"
  using assms by (simp_all add: writeJSON_on_def status_laws header_laws body_laws)

end

interpretation hw: response_writer http_Set http_WriteHeader http_Write w_status w_header w_body
  by unfold_locales (auto simp: http_Set_def http_WriteHeader_def http_Write_def Let_def)

interpretation rw: response_writer rec_Set rec_WriteHeader rec_Write status
    "\<lambda>w. w_header (ResponseWriter w)" written
  by unfold_locales (auto simp: rec_Set_def rec_WriteHeader_def rec_Write_def Let_def hw.header_laws)

text \<open>The recorder agrees with the writer it wraps.\<close>

definition faithful :: "statusRecorder \<Rightarrow> bool" where
  "faithful w \<longleftrightarrow> w_status (ResponseWriter w) = status w \<and> w_body (ResponseWriter w) = written w"

lemma faithful_new [simp]: "faithful (new_recorder (http_Set k v new_writer))"
  by (simp add: faithful_def new_recorder_def new_writer_def http_Set_def)

lemma faithful_ops [simp]:
  "faithful w \<Longrightarrow> faithful (rec_Set k v w)"
  "faithful w \<Longrightarrow> faithful (rec_WriteHeader c w)"
  "faithful w \<Longrightarrow> faithful (rec_Write d w)"
  by (auto simp: faithful_def rec_Set_def rec_WriteHeader_def rec_Write_def http_Set_def http_WriteHeader_def
      http_Write_def Let_def)

lemma writeJSON_simps [simp]:
  "st \<noteq> 0 \<Longrightarrow> status (writeJSON st v w) = (if status w = 0 then st else status w)"
  "st \<noteq> 0 \<Longrightarrow> w_header (ResponseWriter (writeJSON st v w)) = (w_header (ResponseWriter w))(''Content-Type'' \<mapsto> json_type)"
  "st \<noteq> 0 \<Longrightarrow> written (writeJSON st v w) = written w @ [v]"
  by (simp_all add: writeJSON_def rw.writeJSON_reply)

lemma faithful_writeJSON [simp]: "faithful w \<Longrightarrow> faithful (writeJSON st v w)"
  by (simp add: writeJSON_def writeJSON_on_def)

lemma writeError_simps [simp]:
  "st \<noteq> 0 \<Longrightarrow> status (writeError r st code m w) = (if status w = 0 then st else status w)"
  "st \<noteq> 0 \<Longrightarrow> written (writeError r st code m w) = written w @ [error_body r code m]"
  "faithful w \<Longrightarrow> faithful (writeError r st code m w)"
  by (simp_all add: writeError_def)

lemma http_writeJSON_simps [simp]:
  "st \<noteq> 0 \<Longrightarrow> w_status (http_writeJSON st v w) = (if w_status w = 0 then st else w_status w)"
  "st \<noteq> 0 \<Longrightarrow> w_header (http_writeJSON st v w) = (w_header w)(''Content-Type'' \<mapsto> json_type)"
  "st \<noteq> 0 \<Longrightarrow> w_body (http_writeJSON st v w) = w_body w @ [v]"
  by (simp_all add: http_writeJSON_def hw.writeJSON_reply)

end
