(* ===== verification/Handlers.thy ===== *)
theory Handlers
  imports Http
begin

text \<open>
  Package \<open>api\<close>, file \<open>handlers.go\<close>: the handlers of the money API, of test funding and of the
  audit. A handler maps the state of the service and the response to new ones. Between two calls
  of the store other requests may run: \<open>others e k\<close> are the store calls that take effect before
  call number \<open>k\<close> of this request (0 is the one in \<open>authenticate\<close>).
\<close>

section \<open>What happens around a request\<close>

record reqenv =
  auth_call :: callenv
  call1 :: callenv
  call2 :: callenv
  tx :: txenv
  replay_call :: callenv
  others :: "nat \<Rightarrow> store_op list"

definition elsewhere :: "service \<Rightarrow> reqenv \<Rightarrow> nat \<Rightarrow> server \<Rightarrow> server" where
  "elsewhere sv e k s = s\<lparr>s_db := store_run (sv_pg sv) (others e k) (s_db s)\<rparr>"

type_synonym reply = "server \<times> statusRecorder"

section \<open>Wallets\<close>

fun handleCreateWallet :: "service \<Rightarrow> reqenv \<Rightarrow> User \<Rightarrow> request \<Rightarrow> reply \<Rightarrow> reply" where
  "handleCreateWallet sv e user r (s, w) =
     (let s0 = elsewhere sv e 1 s in
      case GetOrCreateWallet (sv_pg sv) (call1 e) (User_ID user) (s_db s0) of (res, d) \<Rightarrow>
      (let s1 = s0\<lparr>s_db := d\<rparr> in
      (case res of
        Inl err \<Rightarrow>
          (log_at sv LevelError (Context r) ''get-or-create wallet failed''
             [(''event'', VString ''wallet_error''), (''error'', VError err)] s1,
           writeError r 500 ''internal_error'' (Text ''could not provision wallet'') w)
      | Inr (wallet, created) \<Rightarrow>
          (let m = s_metrics s1;
               s2 = s1\<lparr>s_metrics := if created then m\<lparr>WalletsCreated := WalletsCreated m + 1\<rparr>
                                      else m\<lparr>WalletsReused := WalletsReused m + 1\<rparr>\<rparr>
           in (log_at sv LevelInfo (Context r) ''wallet get-or-create''
                 [(''event'', VString ''wallet_get_or_create''), (''wallet_id'', VString (ID wallet)),
                  (''user_id'', VString (UserID wallet)), (''created'', VBool created),
                  (''balance_paise'', VInt (BalancePaise wallet))] s2,
               writeJSON (if created then 201 else 200) (WalletBody wallet) w)))))"

fun handleGetWallet :: "service \<Rightarrow> reqenv \<Rightarrow> User \<Rightarrow> request \<Rightarrow> reply \<Rightarrow> reply" where
  "handleGetWallet sv e user r (s, w) =
     (let s0 = elsewhere sv e 1 s in
      case GetWallet (sv_pg sv) (call1 e) (PathID r) (s_db s0) of
        Inl err \<Rightarrow>
          (if errors_Is err ErrWalletNotFound
           then (s0, writeError r 404 ''wallet_not_found'' (Text ''no wallet with that id'') w)
           else (log_at sv LevelError (Context r) ''get wallet failed'' [(''error'', VError err)] s0,
                 writeError r 500 ''internal_error'' (Text ''could not read wallet'') w))
      | Inr wallet \<Rightarrow> (s0, writeJSON 200 (WalletBody wallet) w))"

section \<open>Transfers\<close>

fun rejectTransferStatus :: "service \<Rightarrow> request \<Rightarrow> int \<Rightarrow> string \<Rightarrow> string \<Rightarrow> reply \<Rightarrow> reply" where
  "rejectTransferStatus sv r st code msg (s, w) =
     ((log_at sv LevelWarn (Context r) ''transfer rejected''
         [(''event'', VString ''transfer_rejected''), (''reason'', VString code), (''status'', VInt st)]
         (count_transfer OutcomeInvalid s),
       writeError r st code (Text msg) w))"

definition rejectTransfer :: "service \<Rightarrow> request \<Rightarrow> string \<Rightarrow> string \<Rightarrow> reply \<Rightarrow> reply" where
  "rejectTransfer sv r code msg sw = rejectTransferStatus sv r 422 code msg sw"

text \<open>The \<open>switch\<close> over the decoded body: the code and message of the first check that fails.\<close>

definition validate_transfer :: "transferRequestBody \<Rightarrow> (string \<times> string) option" where
  "validate_transfer b =
     (if TrimSpace (b_IdempotencyKey b) = '''' then Some (''missing_idempotency_key'', ''idempotency_key is required'')
      else if length (b_IdempotencyKey b) > 255
        then Some (''invalid_idempotency_key'', ''idempotency_key must be at most 255 characters'')
      else if b_From b = '''' \<or> b_To b = '''' then Some (''missing_wallet'', ''both from and to are required'')
      else if b_From b = b_To b then Some (''same_wallet'', ''from and to must be different wallets'')
      else case b_AmountPaise b of
             None \<Rightarrow> Some (''missing_amount'', ''amount_paise is required (integer paise)'')
           | Some n \<Rightarrow> if n \<le> 0 then Some (''invalid_amount'', ''amount_paise must be a positive integer'') else None)"

text \<open>\<open>*body.AmountPaise\<close>, reached only when it is not \<open>nil\<close>.\<close>

definition amount_of :: "transferRequestBody \<Rightarrow> paise" where
  "amount_of b = (case b_AmountPaise b of Some n \<Rightarrow> n | None \<Rightarrow> 0)"

definition store_request :: "User \<Rightarrow> transferRequestBody \<Rightarrow> TransferRequest" where
  "store_request user b =
     \<lparr>RequesterUserID = User_ID user, rq_FromWalletID = b_From b, rq_ToWalletID = b_To b,
      rq_AmountPaise = amount_of b, rq_IdempotencyKey = b_IdempotencyKey b\<rparr>"

text \<open>The \<open>switch\<close> over the error of \<open>Transfer\<close>.\<close>

fun transfer_failed :: "service \<Rightarrow> request \<Rightarrow> transferRequestBody \<Rightarrow> error \<Rightarrow> reply \<Rightarrow> reply" where
  "transfer_failed sv r b err (s, w) =
     (if errors_Is err ErrIdempotencyConflict then
        (log_at sv LevelWarn (Context r) ''idempotency key reused with a different body''
           [(''event'', VString ''idempotency_conflict''), (''idempotency_key'', VString (b_IdempotencyKey b))]
           (count_transfer OutcomeConflict s),
         writeError r 409 ''idempotency_key_conflict''
           (Text ''this idempotency_key was already used with different transfer parameters'') w)
      else if errors_Is err ErrWalletNotFound then
        rejectTransferStatus sv r 404 ''wallet_not_found'' ''wallet does not exist'' (s, w)
      else if errors_Is err ErrSameWallet then
        rejectTransfer sv r ''same_wallet'' ''from and to must be different wallets'' (s, w)
      else
        (log_at sv LevelError (Context r) ''transfer failed''
           [(''event'', VString ''transfer_error''), (''idempotency_key'', VString (b_IdempotencyKey b)),
            (''error'', VError err)] s,
         writeError r 500 ''internal_error'' (Text ''transfer could not be processed'') w))"

text \<open>The outcome of an answered transfer: metrics, the domain event, the replay header, 201.\<close>

fun transfer_done :: "service \<Rightarrow> request \<Rightarrow> TransferResult \<Rightarrow> reply \<Rightarrow> reply" where
  "transfer_done sv r res (s, w) =
     (let t = transfer res;
          s1 =
            (if Replay res then
               log_at sv LevelInfo (Context r) ''idempotent replay hit''
                 [(''event'', VString ''idempotent_replay''), (''transfer_id'', VString (TID t)),
                  (''idempotency_key'', VString (IdempotencyKey t)), (''replayed_status'', VString (Status t))]
                 (count_transfer OutcomeReplay s)
             else if Status t = StatusSucceeded then
               (let s' = count_transfer OutcomeSucceeded s; m = s_metrics s' in
                log_at sv LevelInfo (Context r) ''transfer debited and credited''
                  [(''event'', VString ''transfer_succeeded''), (''transfer_id'', VString (TID t)),
                   (''debited_wallet'', VString (FromWalletID t)), (''credited_wallet'', VString (ToWalletID t)),
                   (''amount_paise'', VInt (AmountPaise t))]
                  (s'\<lparr>s_metrics := m\<lparr>TransferAmount := TransferAmount m @ [AmountPaise t]\<rparr>\<rparr>))
             else
               log_at sv LevelWarn (Context r) ''transfer declined''
                 [(''event'', VString ''transfer_declined''), (''transfer_id'', VString (TID t)),
                  (''from'', VString (FromWalletID t)), (''amount_paise'', VInt (AmountPaise t)),
                  (''reason'', VString (case DeclineReason t of Some x \<Rightarrow> x | None \<Rightarrow> ''''))]
                 (count_transfer OutcomeInsufficient s));
          w1 = (if Replay res then rec_Set ''Idempotent-Replay'' ''true'' w else w)
      in (s1, writeJSON 201 (TransferBody t) w1))"

text \<open>The reads before the transaction: \<open>Inr\<close> is the answer that ends the request.\<close>

fun precheck ::
  "service \<Rightarrow> reqenv \<Rightarrow> User \<Rightarrow> request \<Rightarrow> transferRequestBody \<Rightarrow> reply \<Rightarrow> server + reply" where
  "precheck sv e user r b (s, w) =
     (let s0 = elsewhere sv e 1 s in
      case GetWallet (sv_pg sv) (call1 e) (b_From b) (s_db s0) of
        Inl err \<Rightarrow>
          Inr (if errors_Is err ErrWalletNotFound
               then rejectTransferStatus sv r 404 ''wallet_not_found'' ''source wallet does not exist'' (s0, w)
               else (log_at sv LevelError (Context r) ''transfer precheck failed'' [(''error'', VError err)] s0,
                     writeError r 500 ''internal_error'' (Text ''could not read source wallet'') w))
      | Inr fromWallet \<Rightarrow>
          if UserID fromWallet \<noteq> User_ID user then
            Inr (rejectTransferStatus sv r 403 ''not_wallet_owner''
                   ''bearer token does not own the source wallet'' (s0, w))
          else
            (let s1 = elsewhere sv e 2 s0 in
             case GetWallet (sv_pg sv) (call2 e) (b_To b) (s_db s1) of
               Inl err \<Rightarrow>
                 Inr (if errors_Is err ErrWalletNotFound
                      then rejectTransferStatus sv r 404 ''wallet_not_found'' ''destination wallet does not exist'' (s1, w)
                      else (log_at sv LevelError (Context r) ''transfer precheck failed'' [(''error'', VError err)] s1,
                            writeError r 500 ''internal_error'' (Text ''could not read destination wallet'') w))
             | Inr _ \<Rightarrow> Inl s1))"

fun handleCreateTransfer :: "service \<Rightarrow> reqenv \<Rightarrow> User \<Rightarrow> request \<Rightarrow> reply \<Rightarrow> reply" where
  "handleCreateTransfer sv e user r (s, w) =
     (case decode_transfer (Body r) of
        Inl err \<Rightarrow>
          (count_transfer OutcomeInvalid s,
           writeError r 400 ''invalid_body'' (ParseFailed ''could not parse request: '' err) w)
      | Inr b \<Rightarrow>
          (case validate_transfer b of
             Some (code, msg) \<Rightarrow> rejectTransfer sv r code msg (s, w)
           | None \<Rightarrow>
               (case precheck sv e user r b (s, w) of
                  Inr answer \<Rightarrow> answer
                | Inl s1 \<Rightarrow>
                    (let s2 = log_at sv LevelInfo (Context r) ''transfer requested''
                           [(''event'', VString ''transfer_created''), (''from'', VString (b_From b)),
                            (''to'', VString (b_To b)), (''amount_paise'', VInt (amount_of b)),
                            (''idempotency_key'', VString (b_IdempotencyKey b))] s1;
                         s3 = elsewhere sv e 3 s2
                     in case store_Transfer (sv_pg sv) (tx e) (replay_call e) (store_request user b) (s_db s3) of
                          (res, d, rs) \<Rightarrow>
                            (let s4 = fold (on_retry sv) rs (s3\<lparr>s_db := d\<rparr>) in
                             case res of
                               Inl err \<Rightarrow> transfer_failed sv r b err (s4, w)
                             | Inr tr \<Rightarrow> transfer_done sv r tr (s4, w))))))"

fun handleGetTransfer :: "service \<Rightarrow> reqenv \<Rightarrow> User \<Rightarrow> request \<Rightarrow> reply \<Rightarrow> reply" where
  "handleGetTransfer sv e user r (s, w) =
     (let s0 = elsewhere sv e 1 s in
      case GetTransfer (sv_pg sv) (call1 e) (PathID r) (s_db s0) of
        Inl err \<Rightarrow>
          (if errors_Is err ErrTransferNotFound
           then (s0, writeError r 404 ''transfer_not_found'' (Text ''no transfer with that id'') w)
           else (log_at sv LevelError (Context r) ''get transfer failed'' [(''error'', VError err)] s0,
                 writeError r 500 ''internal_error'' (Text ''could not read transfer'') w))
      | Inr t \<Rightarrow> (s0, writeJSON 200 (TransferBody t) w))"

section \<open>Test funding\<close>

fun handleMint :: "service \<Rightarrow> reqenv \<Rightarrow> request \<Rightarrow> reply \<Rightarrow> reply" where
  "handleMint sv e r (s, w) =
     (case decode_mint (Body r) of
        Inl err \<Rightarrow> (s, writeError r 400 ''invalid_body'' (ParseFailed '''' err) w)
      | Inr b \<Rightarrow>
          if mb_WalletID b = '''' \<or> (case mb_AmountPaise b of None \<Rightarrow> True | Some n \<Rightarrow> n \<le> 0) then
            (s, writeError r 422 ''invalid_mint'' (Text ''wallet_id and a positive integer amount_paise are required'') w)
          else if TrimSpace (mb_IdempotencyKey b) = '''' then
            (s, writeError r 422 ''missing_idempotency_key''
                  (Text ''idempotency_key is required so a retried funding step cannot double the float'') w)
          else
            (let n = (case mb_AmountPaise b of Some n \<Rightarrow> n | None \<Rightarrow> 0);
                 s0 = elsewhere sv e 1 s
             in case Mint (sv_pg sv) (tx e) (mb_WalletID b) (mb_IdempotencyKey b) n (s_db s0) of (res, d, rs) \<Rightarrow>
                (let s1 = fold (on_retry sv) rs (s0\<lparr>s_db := d\<rparr>) in
                 case res of
                   Inl err \<Rightarrow>
                     (if errors_Is err ErrWalletNotFound
                      then (s1, writeError r 404 ''wallet_not_found'' (Text ''no wallet with that id'') w)
                      else (log_at sv LevelError (Context r) ''mint failed'' [(''error'', VError err)] s1,
                            writeError r 500 ''internal_error'' (Text ''could not mint'') w))
                 | Inr (wallet, applied) \<Rightarrow>
                     (let m = s_metrics s1;
                          s2 = (if applied then s1\<lparr>s_metrics := m\<lparr>MintedPaise := MintedPaise m @ [n]\<rparr>\<rparr> else s1)
                      in (log_at sv LevelInfo (Context r) ''mint''
                            [(''event'', VString ''mint''), (''wallet_id'', VString (ID wallet)),
                             (''amount_paise'', VInt n), (''applied'', VBool applied),
                             (''balance_paise'', VInt (BalancePaise wallet))] s2,
                          writeJSON 200 (WalletBody wallet)
                            (if applied then w else rec_Set ''Idempotent-Replay'' ''true'' w))))))"

section \<open>The audit\<close>

fun handleInvariants :: "service \<Rightarrow> reqenv \<Rightarrow> request \<Rightarrow> reply \<Rightarrow> reply" where
  "handleInvariants sv e r (s, w) =
     (let s0 = elsewhere sv e 1 s in
      case CheckInvariants (call1 e) (s_db s0) of
        Inl err \<Rightarrow> (s0, writeError r 500 ''internal_error'' (Text ''could not compute invariants'') w)
      | Inr i \<Rightarrow>
          (s0\<lparr>s_metrics := (s_metrics s0)\<lparr>TotalBalance := TotalBalancePaise i, LedgerSum := LedgerSumPaise i\<rparr>\<rparr>,
           writeJSON (if AllHold i then 200 else 500) (InvariantsBody i) w))"

end
