(* ===== verification/Api.thy ===== *)
theory Api
  imports Handlers
begin

text \<open>
  Package \<open>api\<close>, files \<open>middleware.go\<close>, \<open>server.go\<close> and \<open>static.go\<close>: correlation ids, bearer
  tokens, the two authorisation wrappers, the health and log endpoints, dispatch by the mux, and
  \<open>observe\<close>, which wraps every request. \<open>serve\<close> is the handler that \<open>New\<close> returns.
\<close>

section \<open>What happens around an HTTP request\<close>

datatype stream_event = CtxDone | LineIn bytes | ChanClosed | Tick

text \<open>
  \<open>rnd\<close> is what \<open>rand.Read\<close> gives (\<open>None\<close> is an error), \<open>nanos\<close> the clock, \<open>elapsed\<close> the
  microseconds spent, \<open>ping\<close> the result of the readiness ping, \<open>stream\<close> what the select of the log
  stream receives, \<open>prom\<close> the content type, status and page that the Prometheus client gives, \<open>doc_bytes\<close> the length of the encoding
  of a document; \<open>pages\<close> are the two embedded pages.
\<close>

record httpenv =
  calls :: reqenv
  rnd :: "bytes option"
  nanos :: int
  elapsed :: int
  uptime :: int
  ping :: "error option"
  stream :: "stream_event list"
  prom :: "Metrics \<Rightarrow> string \<times> int \<times> bytes"
  doc_bytes :: "document \<Rightarrow> nat"
  logs_html :: bytes
  dashboard_html :: bytes

section \<open>Correlation ids\<close>

definition correlationHeader :: string where
  "correlationHeader = ''X-Correlation-Id''"

definition hex_digit :: "nat \<Rightarrow> char" where
  "hex_digit n = (if n < 10 then char_of (48 + n) else char_of (87 + n))"

definition hex_encode :: "bytes \<Rightarrow> string" where
  "hex_encode bs = concat (map (\<lambda>c. [hex_digit (of_char c div 16), hex_digit (of_char c mod 16)]) bs)"

text \<open>\<open>strconv.FormatInt(n, 36)\<close>.\<close>

fun base36 :: "nat \<Rightarrow> string" where
  "base36 n = (if n < 36 then [hex_digit n] else base36 (n div 36) @ [hex_digit (n mod 36)])"

declare base36.simps [simp del]

definition format36 :: "int \<Rightarrow> string" where
  "format36 i = (if i < 0 then CHR ''-'' # base36 (nat (- i)) else base36 (nat i))"

definition newCorrelationID :: "httpenv \<Rightarrow> string" where
  "newCorrelationID h = (case rnd h of None \<Rightarrow> format36 (nanos h) | Some b \<Rightarrow> ''req_'' @ hex_encode b)"

section \<open>Authorisation\<close>

definition bearerToken :: "request \<Rightarrow> string option" where
  "bearerToken r =
     (let h = Header r ''Authorization'' in
      if length h < 8 \<or> \<not> EqualFold (take 7 h) ''bearer '' then None
      else (let token = TrimSpace (drop 7 h) in if token = '''' then None else Some token))"

fun authenticate ::
  "service \<Rightarrow> reqenv \<Rightarrow> (User \<Rightarrow> request \<Rightarrow> reply \<Rightarrow> reply) \<Rightarrow> request \<Rightarrow> reply \<Rightarrow> reply" where
  "authenticate sv e next_h r (s, w) =
     (case bearerToken r of
        None \<Rightarrow>
          (s, writeError r 401 ''unauthorized'' (Text ''provide a bearer token: Authorization: Bearer <token>'') w)
      | Some token \<Rightarrow>
          (let s0 = elsewhere sv e 0 s in
           case UpsertUser (sv_pg sv) (auth_call e) token (s_db s0) of
             (Inl err, d) \<Rightarrow>
               (log_at sv LevelError (Context r) ''auth failed'' [(''error'', VError err)] (s0\<lparr>s_db := d\<rparr>),
                writeError r 500 ''internal_error'' (Text ''could not resolve caller'') w)
           | (Inr user, d) \<Rightarrow>
               next_h user (r\<lparr>Context := WithCorrelationID (Context r) (CorrelationID (Context r))\<rparr>)
                 (s0\<lparr>s_db := d\<rparr>, w)))"

fun requireAdmin :: "service \<Rightarrow> (request \<Rightarrow> reply \<Rightarrow> reply) \<Rightarrow> request \<Rightarrow> reply \<Rightarrow> reply" where
  "requireAdmin sv next_h r (s, w) =
     (case bearerToken r of
        None \<Rightarrow> (s, writeError r 403 ''forbidden'' (Text ''admin token required'') w)
      | Some token \<Rightarrow>
          if token \<noteq> adminToken sv then (s, writeError r 403 ''forbidden'' (Text ''admin token required'') w)
          else next_h r (s, w))"

section \<open>Health\<close>

definition handleHealth :: "service \<Rightarrow> httpenv \<Rightarrow> request \<Rightarrow> statusRecorder \<Rightarrow> statusRecorder" where
  "handleHealth sv h r w = writeJSON 200 (HealthBody ''ok'' (version sv) (uptime h)) w"

definition handleReady :: "httpenv \<Rightarrow> request \<Rightarrow> statusRecorder \<Rightarrow> statusRecorder" where
  "handleReady h r w =
     (case ping h of Some err \<Rightarrow> writeJSON 503 (DegradedBody err) w | None \<Rightarrow> writeJSON 200 ReadyBody w)"

definition index_endpoints :: "(string \<times> string) list" where
  "index_endpoints =
     [(''POST /wallets'', ''get-or-create the caller's wallet (bearer token = identity)''),
      (''GET /wallets/{id}'', ''current balance''),
      (''POST /transfers'', ''move money; body: from, to, amount_paise, idempotency_key''),
      (''GET /transfers/{id}'', ''transfer status''),
      (''POST /admin/mint'', ''test funding (admin bearer token); NOT a transfer''),
      (''GET /invariants'', ''live invariant audit, recomputed from base tables''),
      (''GET /metrics'', ''prometheus metrics''),
      (''GET /dashboard'', ''live metrics dashboard''),
      (''GET /logs'', ''live structured log stream (public)''),
      (''GET /healthz'', ''liveness''),
      (''GET /readyz'', ''readiness (checks database)'')]"

definition handleIndex :: "service \<Rightarrow> request \<Rightarrow> statusRecorder \<Rightarrow> statusRecorder" where
  "handleIndex sv r w =
     writeJSON 200
       (IndexBody ''wallet-p2p'' (version sv) ''all amounts are integer paise; there is no float in this service''
          index_endpoints) w"

section \<open>Public log access\<close>

text \<open>\<open>json.Valid\<close>: one JSON value and nothing after it.\<close>

definition Valid :: "bytes \<Rightarrow> bool" where
  "Valid b = (case decode_value b of Some (_, rest) \<Rightarrow> skip_ws rest = [] | None \<Rightarrow> False)"

definition recent_count :: "request \<Rightarrow> int" where
  "recent_count r =
     (let v = Query r ''n'' in
      if v \<noteq> '''' then (case Atoi v of Some p \<Rightarrow> if p > 0 \<and> p \<le> 5000 then p else 200 | None \<Rightarrow> 200) else 200)"

definition handleLogsRecent :: "server \<Rightarrow> request \<Rightarrow> statusRecorder \<Rightarrow> statusRecorder" where
  "handleLogsRecent s r w =
     (let out = filter Valid (Snapshot (recent_count r) (s_ring s)) in
      writeJSON 200 (LogsBody (length out) (Subscribers (s_ring s)) out) w)"

definition sse_data :: "bytes \<Rightarrow> document" where
  "sse_data line = Raw (''data: '' @ line @ [CHR 0x0A, CHR 0x0A])"

fun stream_loop :: "stream_event list \<Rightarrow> statusRecorder \<Rightarrow> statusRecorder" where
  "stream_loop [] w = w"
| "stream_loop (CtxDone # es) w = w"
| "stream_loop (ChanClosed # es) w = w"
| "stream_loop (LineIn line # es) w = stream_loop es (rec_Write (sse_data line) w)"
| "stream_loop (Tick # es) w = stream_loop es (rec_Write (Raw ('': heartbeat'' @ [CHR 0x0A, CHR 0x0A])) w)"

text \<open>
  The recorder has a \<open>Flush\<close> method, so the check for \<open>http.Flusher\<close> succeeds. The handler is
  registered with the ring while its loop runs, and the deferred cancel removes it again. What it
  receives there is \<open>stream\<close>.
\<close>

definition handleLogStream :: "httpenv \<Rightarrow> server \<Rightarrow> request \<Rightarrow> statusRecorder \<Rightarrow> reply" where
  "handleLogStream h s r w =
     (let w1 = rec_Set ''Content-Type'' ''text/event-stream'' w;
          w2 = rec_Set ''Cache-Control'' ''no-cache'' w1;
          w3 = rec_Set ''Connection'' ''keep-alive'' w2;
          w4 = rec_Set ''X-Accel-Buffering'' ''no'' w3;
          w5 = rec_WriteHeader 200 w4;
          w6 = fold (\<lambda>line. rec_Write (sse_data line)) (filter Valid (Snapshot 100 (s_ring s))) w5;
          c = new_chan (s_ring s);
          s1 = s\<lparr>s_ring := ring_add c (s_ring s)\<rparr>;
          w7 = stream_loop (stream h) w6
      in (s1\<lparr>s_ring := ring_delete c (s_ring s1)\<rparr>, w7))"

definition servePage :: "bytes \<Rightarrow> statusRecorder \<Rightarrow> statusRecorder" where
  "servePage body w =
     rec_Write (Raw body) (rec_Set ''Cache-Control'' ''no-store''
       (rec_Set ''Content-Type'' ''text/html; charset=utf-8'' w))"

text \<open>The handler of the Prometheus client for \<open>GET /metrics\<close>.\<close>

definition serve_metrics :: "httpenv \<Rightarrow> server \<Rightarrow> statusRecorder \<Rightarrow> statusRecorder" where
  "serve_metrics h s w =
     (case prom h (s_metrics s) of (ctype, st, page) \<Rightarrow>
        rec_Write (Raw page) (rec_WriteHeader st (rec_Set ''Content-Type'' ctype w)))"

section \<open>Dispatch\<close>

fun dispatch :: "service \<Rightarrow> httpenv \<Rightarrow> route \<Rightarrow> request \<Rightarrow> reply \<Rightarrow> reply" where
  "dispatch sv h RCreateWallet r sw = authenticate sv (calls h) (handleCreateWallet sv (calls h)) r sw"
| "dispatch sv h RGetWallet r sw = authenticate sv (calls h) (handleGetWallet sv (calls h)) r sw"
| "dispatch sv h RCreateTransfer r sw = authenticate sv (calls h) (handleCreateTransfer sv (calls h)) r sw"
| "dispatch sv h RGetTransfer r sw = authenticate sv (calls h) (handleGetTransfer sv (calls h)) r sw"
| "dispatch sv h RMint r sw = requireAdmin sv (handleMint sv (calls h)) r sw"
| "dispatch sv h RInvariants r sw = handleInvariants sv (calls h) r sw"
| "dispatch sv h RHealth r (s, w) = (s, handleHealth sv h r w)"
| "dispatch sv h RReady r (s, w) = (s, handleReady h r w)"
| "dispatch sv h RMetrics r (s, w) = (s, serve_metrics h s w)"
| "dispatch sv h RLogStream r (s, w) = handleLogStream h s r w"
| "dispatch sv h RLogsRecent r (s, w) = (s, handleLogsRecent s r w)"
| "dispatch sv h RLogViewer r (s, w) = (s, servePage (logs_html h) w)"
| "dispatch sv h RDashboard r (s, w) = (s, servePage (dashboard_html h) w)"
| "dispatch sv h RIndex r (s, w) = (s, handleIndex sv r w)"

text \<open>
  The answers of \<open>ServeMux\<close> itself. The page of a redirect, the query in its location and the
  \<open>Allow\<close> header of a 405 are left out.
\<close>

definition http_Error :: "int \<Rightarrow> string \<Rightarrow> statusRecorder \<Rightarrow> statusRecorder" where
  "http_Error code text w =
     rec_Write (Raw (text @ [CHR 0x0A]))
       (rec_WriteHeader code
         (rec_Set ''X-Content-Type-Options'' ''nosniff''
           (rec_Set ''Content-Type'' ''text/plain; charset=utf-8'' w)))"

text \<open>
  \<open>ServeMux.ServeHTTP\<close>: the value of a panic (none of the modelled handlers panics), the
  request with its pattern, and the reply.
\<close>

definition mux_ServeHTTP :: "service \<Rightarrow> httpenv \<Rightarrow> request \<Rightarrow> reply \<Rightarrow> string option \<times> request \<times> reply" where
  "mux_ServeHTTP sv h r sw =
     (case mux_find (Method r) (Path r) of
        Matched text i rt \<Rightarrow>
          (let r1 = r\<lparr>Pattern := text, PathID := i\<rparr> in (None, r1, dispatch sv h rt r1 sw))
      | Redirect text \<Rightarrow>
          (None, r\<lparr>Pattern := text\<rparr>, fst sw,
           rec_WriteHeader 301 (rec_Set ''Location'' (cleanPath (Path r)) (snd sw)))
      | MethodNotAllowed \<Rightarrow> (None, r\<lparr>Pattern := ''''\<rparr>, fst sw, http_Error 405 ''Method Not Allowed'' (snd sw))
      | NotFound \<Rightarrow> (None, r\<lparr>Pattern := ''''\<rparr>, fst sw, http_Error 404 ''404 page not found'' (snd sw)))"

section \<open>The outermost middleware\<close>

definition add_in_flight :: "int \<Rightarrow> server \<Rightarrow> server" where
  "add_in_flight n s = s\<lparr>s_metrics := (s_metrics s)\<lparr>HTTPInFlight := HTTPInFlight (s_metrics s) + n\<rparr>\<rparr>"

text \<open>The deferred function: a panic becomes a 500, then the metrics and the access log.\<close>

definition recovered :: "service \<Rightarrow> string option \<Rightarrow> request \<Rightarrow> reply \<Rightarrow> reply" where
  "recovered sv panic r sw =
     (case panic of
        None \<Rightarrow> sw
      | Some rv \<Rightarrow>
          (case sw of (s, w) \<Rightarrow>
             (log_at sv LevelError (Context r) ''panic recovered'' [(''panic'', VString rv), (''path'', VString (Path r))] s,
              if status w = 0 then
                w\<lparr>ResponseWriter := http_writeJSON 500 (error_body r ''internal_error'' (Text ''unexpected server error''))
                                      (ResponseWriter w),
                  status := 500\<rparr>
              else w)))"

definition final_status :: "statusRecorder \<Rightarrow> int" where
  "final_status w = (if status w = 0 then 200 else status w)"

definition account :: "service \<Rightarrow> httpenv \<Rightarrow> request \<Rightarrow> statusRecorder \<Rightarrow> server \<Rightarrow> server" where
  "account sv h r w s =
     (let route = routeLabel r;
          st = final_status w;
          m = s_metrics s;
          d = HTTPDuration m;
          s1 = s\<lparr>s_metrics := m\<lparr>HTTPDuration := d((Method r, route) := d (Method r, route) @ [elapsed h]),
                                HTTPRequests := bump (HTTPRequests m) (Method r, route, show_int st)\<rparr>\<rparr>
      in if isNoisyRoute route then s1
         else log_at sv LevelInfo (Context r) ''http_request''
           [(''event'', VString ''http_request''), (''method'', VString (Method r)), (''route'', VString route),
            (''path'', VString (Path r)), (''status'', VInt st), (''duration_ms'', VMicros (elapsed h)),
            (''bytes'', VInt (int (sum_list (map (doc_bytes h) (written w)))))] s1)"

definition request_id :: "httpenv \<Rightarrow> request \<Rightarrow> string" where
  "request_id h r =
     (if Header r correlationHeader = '''' then newCorrelationID h else Header r correlationHeader)"

definition observe ::
  "service \<Rightarrow> httpenv \<Rightarrow> (request \<Rightarrow> reply \<Rightarrow> string option \<times> request \<times> reply) \<Rightarrow> request \<Rightarrow> server \<Rightarrow> server \<times> http_writer" where
  "observe sv h next_h r s =
     (let i = request_id h r;
          r1 = r\<lparr>Context := WithCorrelationID (Context r) i\<rparr>;
          w0 = http_Set correlationHeader i new_writer
      in case next_h r1 (add_in_flight 1 s, new_recorder w0) of (panic, r2, sw) \<Rightarrow>
         (case recovered sv panic r2 sw of (s2, w2) \<Rightarrow>
            (add_in_flight (- 1) (account sv h r2 w2 s2), ResponseWriter w2)))"

text \<open>The handler that \<open>New\<close> builds.\<close>

definition serve :: "service \<Rightarrow> httpenv \<Rightarrow> request \<Rightarrow> server \<Rightarrow> server \<times> http_writer" where
  "serve sv h r s = observe sv h (mux_ServeHTTP sv h) r s"

definition new_server :: "int \<Rightarrow> server" where
  "new_server ring_size =
     \<lparr>s_db = empty_db, s_metrics = NewMetrics, s_log = [], s_ring = NewRing ring_size\<rparr>"

end
