(* ===== verification/Api_Frame.thy ===== *)
theory Api_Frame
  imports Api
begin

text \<open>
  What every handler keeps: the database changes only by calls of the store, log records are only
  appended, stamped with the id of the request (or written by the retry callback), mirrored in the
  ring, and the metrics of \<open>observe\<close> are left alone. The relation \<open>extends\<close> holds between the
  state before and after each step of a handler, so each handler inherits it by composition.
\<close>

section \<open>The relation\<close>

definition stamped :: "string \<Rightarrow> log_record \<Rightarrow> bool" where
  "stamped i r \<longleftrightarrow> i \<noteq> '''' \<and> (''correlation_id'', VString i) \<in> set (lr_attrs r)"

definition is_retry_record :: "log_record \<Rightarrow> bool" where
  "is_retry_record r \<longleftrightarrow> (''event'', VString ''db_tx_retry'') \<in> set (lr_attrs r)"

definition http_metrics :: "server \<Rightarrow> int \<times> (string \<times> string \<times> string \<Rightarrow> nat) \<times> (string \<times> string \<Rightarrow> int list)" where
  "http_metrics s = (HTTPInFlight (s_metrics s), HTTPRequests (s_metrics s), HTTPDuration (s_metrics s))"

definition store_reaches :: "pg \<Rightarrow> db \<Rightarrow> db \<Rightarrow> bool" where
  "store_reaches pg d d' \<longleftrightarrow> (\<exists>ops. d' = store_run pg ops d)"

definition logs_more :: "service \<Rightarrow> string \<Rightarrow> server \<Rightarrow> server \<Rightarrow> bool" where
  "logs_more sv i s s' \<longleftrightarrow>
     (\<exists>recs. s_log s' = s_log s @ recs \<and> (\<forall>r \<in> set recs. stamped i r \<or> is_retry_record r) \<and>
        s_ring s' = fold ring_push (map (slog_line sv) recs) (s_ring s))"

definition extends :: "service \<Rightarrow> string \<Rightarrow> server \<Rightarrow> server \<Rightarrow> bool" where
  "extends sv i s s' \<longleftrightarrow>
     store_reaches (sv_pg sv) (s_db s) (s_db s') \<and> logs_more sv i s s' \<and> http_metrics s' = http_metrics s"

section \<open>Composition\<close>

lemma store_reaches_refl [simp]: "store_reaches pg d d"
  by (auto simp: store_reaches_def store_run_def intro: exI [of _ "[]"])

lemma store_reaches_step: "store_reaches pg d d1 \<Longrightarrow> store_reaches pg d (store_run pg ops d1)"
proof -
  assume "store_reaches pg d d1"
  then obtain ops1 where "d1 = store_run pg ops1 d" by (auto simp: store_reaches_def)
  then have "store_run pg ops d1 = store_run pg (ops1 @ ops) d" by (simp add: store_run_def)
  then show ?thesis unfolding store_reaches_def by blast
qed

lemma store_run_single: "store_run pg [op] d = store_step pg op d"
  by (simp add: store_run_def)

lemma store_reaches_op: "store_reaches pg d d1 \<Longrightarrow> store_reaches pg d (store_step pg op d1)"
  using store_reaches_step [of pg d d1 "[op]"] by (simp add: store_run_single)

lemma store_reaches_ok: "store_reaches pg d d' \<Longrightarrow> store_ok d \<Longrightarrow> store_ok d'"
  by (auto simp: store_reaches_def intro: store_run_ok)

lemma logs_more_refl [simp]: "logs_more sv i s s"
  by (simp add: logs_more_def)

lemma logs_more_add:
  assumes "logs_more sv i s s1" and "s_log s' = s_log s1 @ [r]" and "stamped i r \<or> is_retry_record r"
    and "s_ring s' = ring_push (slog_line sv r) (s_ring s1)"
  shows "logs_more sv i s s'"
proof -
  from assms(1) obtain recs where r: "s_log s1 = s_log s @ recs" "\<forall>r \<in> set recs. stamped i r \<or> is_retry_record r"
    "s_ring s1 = fold ring_push (map (slog_line sv) recs) (s_ring s)" by (auto simp: logs_more_def)
  with assms(2-4) show ?thesis unfolding logs_more_def by (intro exI [of _ "recs @ [r]"]) auto
qed

lemma logs_more_same:
  "logs_more sv i s s1 \<Longrightarrow> s_log s' = s_log s1 \<Longrightarrow> s_ring s' = s_ring s1 \<Longrightarrow> logs_more sv i s s'"
  by (simp add: logs_more_def)

lemma extends_refl [simp, intro!]: "extends sv i s s"
  by (simp add: extends_def)

lemma http_metrics_log [simp]: "http_metrics (log_at sv l c m as s) = http_metrics s"
  by (simp add: http_metrics_def)

lemma Handle_stamped: "CorrelationID c = i \<Longrightarrow> i \<noteq> '''' \<Longrightarrow> stamped i (Handle c r)"
  by (simp add: stamped_def Handle_def)

lemma extends_log:
  assumes "extends sv i s s1" and "CorrelationID c = i" and "i \<noteq> ''''"
  shows "extends sv i s (log_at sv l c m as s1)"
proof -
  from assms(1) have e: "store_reaches (sv_pg sv) (s_db s) (s_db s1)" "logs_more sv i s s1" "http_metrics s1 = http_metrics s"
    by (simp_all add: extends_def)
  have "logs_more sv i s (log_at sv l c m as s1)"
  proof (cases "level_value l < level_value (sv_level sv)")
    case True
    with e show ?thesis by (simp add: log_at_def)
  next
    case False
    then show ?thesis
      by (intro logs_more_add [OF e(2), of _ "Handle c \<lparr>lr_level = l, lr_msg = m, lr_attrs = as\<rparr>"])
        (simp_all add: log_at_def Let_def Handle_stamped assms(2,3))
  qed
  with e show ?thesis by (simp add: extends_def)
qed

lemma extends_metrics:
  assumes "extends sv i s s1" and "HTTPInFlight m = HTTPInFlight (s_metrics s1)"
    and "HTTPRequests m = HTTPRequests (s_metrics s1)" and "HTTPDuration m = HTTPDuration (s_metrics s1)"
  shows "extends sv i s (s1\<lparr>s_metrics := m\<rparr>)"
  using assms by (auto simp: extends_def http_metrics_def intro: logs_more_same [of _ _ _ s1])

lemma extends_db:
  assumes "extends sv i s s1" and "store_reaches (sv_pg sv) (s_db s1) d"
  shows "extends sv i s (s1\<lparr>s_db := d\<rparr>)"
proof -
  from assms(2) obtain ops where "d = store_run (sv_pg sv) ops (s_db s1)" by (auto simp: store_reaches_def)
  with assms(1) show ?thesis
    by (auto simp: extends_def http_metrics_def intro: store_reaches_step logs_more_same [of _ _ _ s1])
qed

lemma extends_count: "extends sv i s s1 \<Longrightarrow> extends sv i s (count_transfer k s1)"
  unfolding count_transfer_def by (rule extends_metrics) simp_all

lemma extends_elsewhere: "extends sv i s s1 \<Longrightarrow> extends sv i s (elsewhere sv e k s1)"
  unfolding elsewhere_def by (erule extends_db) (simp add: store_reaches_step)

lemma extends_retry_record:
  assumes "extends sv i s s1" and "(''event'', VString ''db_tx_retry'') \<in> set as"
  shows "extends sv i s (log_at sv l None m as s1)"
proof -
  from assms(1) have e: "store_reaches (sv_pg sv) (s_db s) (s_db s1)" "logs_more sv i s s1" "http_metrics s1 = http_metrics s"
    by (simp_all add: extends_def)
  have "logs_more sv i s (log_at sv l None m as s1)"
  proof (cases "level_value l < level_value (sv_level sv)")
    case True
    with e show ?thesis by (simp add: log_at_def)
  next
    case False
    with assms(2) show ?thesis
      by (intro logs_more_add [OF e(2), of _ "\<lparr>lr_level = l, lr_msg = m, lr_attrs = as\<rparr>"])
        (simp_all add: log_at_def Let_def Handle_def CorrelationID_def is_retry_record_def)
  qed
  with e show ?thesis by (simp add: extends_def)
qed

lemma extends_retry: "extends sv i s s1 \<Longrightarrow> extends sv i s (on_retry sv p s1)"
  unfolding on_retry_def Let_def by (intro extends_retry_record extends_metrics) simp_all

lemma extends_retries: "extends sv i s s1 \<Longrightarrow> extends sv i s (fold (on_retry sv) rs s1)"
  by (induction rs arbitrary: s1) (simp_all add: extends_retry)

lemmas extends_intros = extends_log extends_metrics extends_db extends_count extends_elsewhere extends_retries

section \<open>The calls of the store\<close>

lemma reaches_calls:
  "UpsertUser pg c token d = (res, d1) \<Longrightarrow> store_reaches pg d d1"
  "GetOrCreateWallet pg c u d = (res2, d1) \<Longrightarrow> store_reaches pg d d1"
  "Mint pg x i k n d = (res3, d1, rs) \<Longrightarrow> store_reaches pg d d1"
  "store_Transfer pg x c req d = (res4, d1, rs) \<Longrightarrow> store_reaches pg d d1"
proof -
  note op = store_reaches_op [of pg d d, OF store_reaches_refl]
  show "UpsertUser pg c token d = (res, d1) \<Longrightarrow> store_reaches pg d d1"
    using op [of "OpUpsertUser c token"] by simp
  show "GetOrCreateWallet pg c u d = (res2, d1) \<Longrightarrow> store_reaches pg d d1"
    using op [of "OpGetOrCreateWallet c u"] by simp
  show "Mint pg x i k n d = (res3, d1, rs) \<Longrightarrow> store_reaches pg d d1"
    using op [of "OpMint x i k n"] by simp
  show "store_Transfer pg x c req d = (res4, d1, rs) \<Longrightarrow> store_reaches pg d d1"
    using op [of "OpTransfer x c req"] by simp
qed

section \<open>The handlers\<close>

lemma rejectTransferStatus_extends:
  "CorrelationID (Context r) = i \<Longrightarrow> i \<noteq> '''' \<Longrightarrow> extends sv i s s1 \<Longrightarrow>
   extends sv i s (fst (rejectTransferStatus sv r st code msg (s1, w)))"
  by (simp add: extends_log extends_count)

lemma handleCreateWallet_extends:
  assumes "CorrelationID (Context r) = i" and "i \<noteq> ''''" and "extends sv i s s1"
  shows "extends sv i s (fst (handleCreateWallet sv e user r (s1, w)))"
proof -
  let ?s0 = "elsewhere sv e 1 s1"
  obtain res d where c: "GetOrCreateWallet (sv_pg sv) (call1 e) (User_ID user) (s_db ?s0) = (res, d)" by fastforce
  have "extends sv i s (?s0\<lparr>s_db := d\<rparr>)"
    by (intro extends_db extends_elsewhere assms(3) reaches_calls(2) [OF c])
  then show ?thesis
    using assms(1,2) c by (auto simp: Let_def split: sum.splits intro!: extends_log extends_metrics)
qed

lemma handleGetWallet_extends:
  "CorrelationID (Context r) = i \<Longrightarrow> i \<noteq> '''' \<Longrightarrow> extends sv i s s1 \<Longrightarrow>
   extends sv i s (fst (handleGetWallet sv e user r (s1, w)))"
  by (auto simp: Let_def split: sum.splits intro!: extends_log extends_elsewhere)

lemma handleGetTransfer_extends:
  "CorrelationID (Context r) = i \<Longrightarrow> i \<noteq> '''' \<Longrightarrow> extends sv i s s1 \<Longrightarrow>
   extends sv i s (fst (handleGetTransfer sv e user r (s1, w)))"
  by (auto simp: Let_def split: sum.splits intro!: extends_log extends_elsewhere)

lemma handleInvariants_extends:
  "extends sv i s s1 \<Longrightarrow> extends sv i s (fst (handleInvariants sv e r (s1, w)))"
  by (auto simp: Let_def split: sum.splits intro!: extends_metrics extends_elsewhere)

lemma transfer_failed_extends:
  "CorrelationID (Context r) = i \<Longrightarrow> i \<noteq> '''' \<Longrightarrow> extends sv i s s1 \<Longrightarrow>
   extends sv i s (fst (transfer_failed sv r b err (s1, w)))"
  by (simp add: rejectTransfer_def extends_log extends_count)

lemma transfer_done_extends:
  "CorrelationID (Context r) = i \<Longrightarrow> i \<noteq> '''' \<Longrightarrow> extends sv i s s1 \<Longrightarrow>
   extends sv i s (fst (transfer_done sv r res (s1, w)))"
  by (auto simp: Let_def intro!: extends_log extends_metrics extends_count)

lemma precheck_extends:
  assumes "CorrelationID (Context r) = i" and "i \<noteq> ''''" and "extends sv i s s1"
  shows "precheck sv e user r b (s1, w) = Inl s2 \<Longrightarrow> extends sv i s s2"
    and "precheck sv e user r b (s1, w) = Inr a \<Longrightarrow> extends sv i s (fst a)"
  using assms
  by (auto simp: Let_def split: sum.splits if_splits
      intro!: extends_log extends_elsewhere extends_count)

lemma handleCreateTransfer_extends:
  assumes r: "CorrelationID (Context r) = i" "i \<noteq> ''''" and "extends sv i s s1"
  shows "extends sv i s (fst (handleCreateTransfer sv e user r (s1, w)))"
proof (cases "decode_transfer (Body r)")
  case (Inl err)
  with assms show ?thesis by (simp add: extends_count)
next
  case dec: (Inr b)
  show ?thesis
  proof (cases "validate_transfer b")
    case (Some cm)
    with dec assms show ?thesis
      by (cases cm) (simp add: rejectTransfer_def extends_log extends_count)
  next
    case val: None
    show ?thesis
    proof (cases "precheck sv e user r b (s1, w)")
      case (Inr a)
      with dec val precheck_extends(2) [OF assms] show ?thesis by (simp del: precheck.simps)
    next
      case pre: (Inl s2)
      define s3 where "s3 = elsewhere sv e 3 (log_at sv LevelInfo (Context r) ''transfer requested''
          [(''event'', VString ''transfer_created''), (''from'', VString (b_From b)),
           (''to'', VString (b_To b)), (''amount_paise'', VInt (amount_of b)),
           (''idempotency_key'', VString (b_IdempotencyKey b))] s2)"
      obtain res d rs where c: "store_Transfer (sv_pg sv) (tx e) (replay_call e) (store_request user b) (s_db s3) = (res, d, rs)"
        by (metis prod_cases3)
      have "extends sv i s s3"
        unfolding s3_def by (intro extends_elsewhere extends_log precheck_extends(1) [OF assms pre] r)
      then have "extends sv i s (fold (on_retry sv) rs (s3\<lparr>s_db := d\<rparr>))"
        by (intro extends_retries extends_db reaches_calls(4) [OF c])
      with dec val pre c r show ?thesis
        by (cases res) (simp_all add: s3_def [symmetric] transfer_failed_extends transfer_done_extends
            del: precheck.simps transfer_failed.simps transfer_done.simps)
    qed
  qed
qed

lemma handleMint_extends:
  assumes r: "CorrelationID (Context r) = i" "i \<noteq> ''''" and "extends sv i s s1"
  shows "extends sv i s (fst (handleMint sv e r (s1, w)))"
proof (cases "decode_mint (Body r)")
  case (Inl err)
  with assms show ?thesis by simp
next
  case (Inr b)
  let ?n = "case mb_AmountPaise b of Some n \<Rightarrow> n | None \<Rightarrow> 0" and ?s0 = "elsewhere sv e 1 s1"
  obtain res d rs where c: "Mint (sv_pg sv) (tx e) (mb_WalletID b) (mb_IdempotencyKey b) ?n (s_db ?s0) = (res, d, rs)"
    by (metis prod_cases3)
  have "extends sv i s (fold (on_retry sv) rs (?s0\<lparr>s_db := d\<rparr>))"
    by (intro extends_retries extends_db extends_elsewhere assms(3) reaches_calls(3) [OF c])
  with Inr c assms show ?thesis
    by (auto simp: Let_def split: sum.splits intro!: extends_log extends_metrics)
qed

section \<open>Authorisation and dispatch\<close>

lemma CorrelationID_With [simp]: "CorrelationID (WithCorrelationID c i) = i"
  by (simp add: WithCorrelationID_def CorrelationID_def)

lemma authenticate_extends:
  assumes r: "CorrelationID (Context r) = i" "i \<noteq> ''''" and e: "extends sv i s s1"
    and nxt: "\<And>user r' s2 w2. CorrelationID (Context r') = i \<Longrightarrow> extends sv i s s2 \<Longrightarrow>
      extends sv i s (fst (next_h user r' (s2, w2)))"
  shows "extends sv i s (fst (authenticate sv c next_h r (s1, w)))"
proof (cases "bearerToken r")
  case None
  with e show ?thesis by simp
next
  case (Some token)
  obtain res d where u: "UpsertUser (sv_pg sv) (auth_call c) token (s_db (elsewhere sv c 0 s1)) = (res, d)" by fastforce
  have "extends sv i s ((elsewhere sv c 0 s1)\<lparr>s_db := d\<rparr>)"
    by (intro extends_db extends_elsewhere e reaches_calls(1) [OF u])
  with Some u r show ?thesis
    by (cases res) (simp_all add: Let_def extends_log nxt)
qed

lemma requireAdmin_extends:
  assumes "extends sv i s s1" and "extends sv i s (fst (next_h r (s1, w)))"
  shows "extends sv i s (fst (requireAdmin sv next_h r (s1, w)))"
  using assms by (auto split: option.splits)

lemmas handler_simps_del = handleCreateWallet.simps handleGetWallet.simps handleCreateTransfer.simps
  handleGetTransfer.simps handleInvariants.simps handleMint.simps authenticate.simps requireAdmin.simps

text \<open>The log stream leaves the service as it found it: its subscription ends with it.\<close>

lemma log_stream_state [simp]: "fst (handleLogStream h s r w) = s"
  by (simp add: handleLogStream_def Let_def)

lemma dispatch_extends:
  assumes r: "CorrelationID (Context r) = i" "i \<noteq> ''''" and e: "extends sv i s s1"
  shows "extends sv i s (fst (dispatch sv h rt r (s1, w)))"
  by (cases rt)
    (simp_all add: e r authenticate_extends requireAdmin_extends handleCreateWallet_extends handleGetWallet_extends
      handleCreateTransfer_extends handleGetTransfer_extends handleMint_extends handleInvariants_extends
      del: handler_simps_del)

lemma mux_extends:
  assumes "CorrelationID (Context r) = i" and "i \<noteq> ''''" and "mux_ServeHTTP sv h r (s, w) = (p, r2, s2, w2)"
  shows "extends sv i s s2"
proof (cases "mux_find (Method r) (Path r)")
  case (Matched pat j rt)
  let ?r = "r\<lparr>Pattern := pat, PathID := j\<rparr>"
  have "extends sv i s (fst (dispatch sv h rt ?r (s, w)))" using assms(1,2) by (intro dispatch_extends) simp_all
  moreover have "dispatch sv h rt ?r (s, w) = (s2, w2)" using assms(3) Matched by (auto simp: mux_ServeHTTP_def Let_def)
  ultimately show ?thesis by simp
qed (use assms(3) in \<open>simp_all add: mux_ServeHTTP_def\<close>)

section \<open>Replies\<close>

text \<open>
  What a handler does to the response: the recorder stays faithful to the writer that it wraps,
  and no header named \<open>k\<close> is touched, for \<open>k\<close> outside the few names that the program sets.
\<close>

definition own_headers :: "string list" where
  "own_headers =
     [''Content-Type'', ''Idempotent-Replay'', ''Cache-Control'', ''Connection'', ''X-Accel-Buffering'',
      ''X-Content-Type-Options'', ''Location'']"

definition replies :: "statusRecorder \<Rightarrow> statusRecorder \<Rightarrow> bool" where
  "replies w w' \<longleftrightarrow>
     (faithful w \<longrightarrow> faithful w') \<and>
     (\<forall>k. k \<notin> set own_headers \<longrightarrow> w_header (ResponseWriter w') k = w_header (ResponseWriter w) k)"

lemma replies_refl [simp, intro!]: "replies w w"
  by (simp add: replies_def)

lemma own_headers_mem [simp]:
  "''Content-Type'' \<in> set own_headers" "''Idempotent-Replay'' \<in> set own_headers" "''Cache-Control'' \<in> set own_headers"
  "''Connection'' \<in> set own_headers" "''X-Accel-Buffering'' \<in> set own_headers"
  "''X-Content-Type-Options'' \<in> set own_headers" "''Location'' \<in> set own_headers"
  by (simp_all add: own_headers_def)

lemma replies_ops [intro!]:
  "replies w w1 \<Longrightarrow> k \<in> set own_headers \<Longrightarrow> replies w (rec_Set k v w1)"
  "replies w w1 \<Longrightarrow> replies w (rec_WriteHeader c w1)"
  "replies w w1 \<Longrightarrow> replies w (rec_Write d w1)"
  by (auto simp: replies_def rw.header_laws)

lemma replies_JSON [intro!]:
  "replies w w1 \<Longrightarrow> replies w (writeJSON st v w1)"
  "replies w w1 \<Longrightarrow> replies w (writeError r st code m w1)"
  by (simp_all add: writeError_def writeJSON_def writeJSON_on_def replies_ops)

lemma replies_lines: "replies w w1 \<Longrightarrow> replies w (fold (\<lambda>l. rec_Write (f l)) ls w1)"
  by (induction ls arbitrary: w1) (auto intro: replies_ops)

lemma replies_stream: "replies w w1 \<Longrightarrow> replies w (stream_loop es w1)"
  by (induction es w1 rule: stream_loop.induct) (auto intro: replies_ops)

lemma transfer_replies:
  "replies w (snd (rejectTransferStatus sv r st code msg (s, w)))"
  "replies w (snd (transfer_failed sv r b err (s, w)))"
  "replies w (snd (transfer_done sv r res (s, w)))"
  "precheck sv e user r b (s, w) = Inr (s', w') \<Longrightarrow> replies w w'"
  by (auto simp: rejectTransfer_def Let_def split: sum.splits if_splits)

lemma handler_replies:
  "replies w (snd (handleCreateWallet sv e user r (s, w)))"
  "replies w (snd (handleGetWallet sv e user r (s, w)))"
  "replies w (snd (handleCreateTransfer sv e user r (s, w)))"
  "replies w (snd (handleGetTransfer sv e user r (s, w)))"
  "replies w (snd (handleMint sv e r (s, w)))"
  "replies w (snd (handleInvariants sv e r (s, w)))"
proof -
  show "replies w (snd (handleCreateTransfer sv e user r (s, w)))"
    by (auto simp: Let_def rejectTransfer_def split: sum.splits option.splits prod.splits
        intro: transfer_replies
        simp del: precheck.simps transfer_failed.simps transfer_done.simps rejectTransferStatus.simps)
qed (auto simp: Let_def split: sum.splits prod.splits option.splits)

lemma authenticate_replies:
  "(\<And>user r' s'. replies w (snd (next_h user r' (s', w)))) \<Longrightarrow> replies w (snd (authenticate sv e next_h r (s, w)))"
  by (auto simp: Let_def split: option.splits sum.splits prod.splits)

lemma requireAdmin_replies:
  "(\<And>s'. replies w (snd (next_h r (s', w)))) \<Longrightarrow> replies w (snd (requireAdmin sv next_h r (s, w)))"
  by (auto split: option.splits)

lemma page_replies:
  "replies w (handleHealth sv h r w)" "replies w (handleReady h r w)" "replies w (handleIndex sv r w)"
  "replies w (handleLogsRecent s r w)" "replies w (snd (handleLogStream h s r w))" "replies w (servePage p w)"
  "replies w (serve_metrics h s w)" "replies w (http_Error c t w)"
  by (auto simp: handleHealth_def handleReady_def handleIndex_def handleLogsRecent_def handleLogStream_def servePage_def
      serve_metrics_def http_Error_def Let_def split: option.split prod.split
      intro!: replies_stream replies_lines replies_ops)

lemma dispatch_replies: "replies w (snd (dispatch sv h rt r (s, w)))"
  by (cases rt)
    (simp_all add: authenticate_replies requireAdmin_replies handler_replies page_replies del: handler_simps_del)

lemma mux_replies:
  assumes "mux_ServeHTTP sv h r (s, w) = (p, r2, s2, w2)"
  shows "replies w w2" and "p = None" and "Context r2 = Context r" and "Method r2 = Method r" and "Path r2 = Path r"
proof -
  have d: "replies w w2" if "dispatch sv h rt r1 (s, w) = (s2, w2)" for rt r1
    using dispatch_replies [of w sv h rt r1 s] that by simp
  from assms show "p = None" "Context r2 = Context r" "Method r2 = Method r" "Path r2 = Path r"
    by (auto simp: mux_ServeHTTP_def Let_def split: mux_result.splits)
  show "replies w w2"
    using assms d by (auto simp: mux_ServeHTTP_def Let_def page_replies split: mux_result.splits)
qed

end
