(* ===== verification/Api_Props.thy ===== *)
theory Api_Props
  imports Api_Frame Samples
begin

text \<open>
  Properties of the HTTP service as a whole. What \<open>observe\<close> relies on is the interface
  \<open>wrapped_handler\<close>; its consequences are proved there once and hold for the mux with all
  handlers by interpretation. A run of the service is a sequence of requests.
\<close>

section \<open>Interface: a handler under the outermost middleware\<close>

lemma logs_more_cong:
  "s_log s1 = s_log s \<Longrightarrow> s_ring s1 = s_ring s \<Longrightarrow> logs_more sv i s1 s' = logs_more sv i s s'"
  by (simp add: logs_more_def)

lemma add_in_flight_frame [simp]:
  "s_db (add_in_flight n s) = s_db s" "s_log (add_in_flight n s) = s_log s" "s_ring (add_in_flight n s) = s_ring s"
  "HTTPInFlight (s_metrics (add_in_flight n s)) = HTTPInFlight (s_metrics s) + n"
  "HTTPRequests (s_metrics (add_in_flight n s)) = HTTPRequests (s_metrics s)"
  "Transfers (s_metrics (add_in_flight n s)) = Transfers (s_metrics s)"
  "TransferAmount (s_metrics (add_in_flight n s)) = TransferAmount (s_metrics s)"
  by (simp_all add: add_in_flight_def)

lemma account_frame [simp]:
  "s_db (account sv h r w s) = s_db s"
  "HTTPInFlight (s_metrics (account sv h r w s)) = HTTPInFlight (s_metrics s)"
  "HTTPRequests (s_metrics (account sv h r w s)) =
     bump (HTTPRequests (s_metrics s)) (Method r, routeLabel r, show_int (final_status w))"
  "Transfers (s_metrics (account sv h r w s)) = Transfers (s_metrics s)"
  by (simp_all add: account_def Let_def)

lemma account_logs:
  assumes "logs_more sv i s s1" and "CorrelationID (Context r) = i" and "i \<noteq> ''''"
  shows "logs_more sv i s (account sv h r w s1)"
proof -
  let ?s = "s1\<lparr>s_db := s_db s, s_metrics := s_metrics s\<rparr>"
  have e: "extends sv i s ?s" using assms(1) by (simp add: extends_def http_metrics_def logs_more_def)
  have "logs_more sv i s (log_at sv l c m as s2)"
    if "s_log s2 = s_log ?s" "s_ring s2 = s_ring ?s" "CorrelationID c = i" for l c m as s2
    using extends_log [OF e that(3) assms(3), of l m as] that(1,2)
    by (auto simp: extends_def logs_more_def log_at_def Let_def split: if_splits)
  with assms show ?thesis by (auto simp: account_def Let_def logs_more_def)
qed

lemma newCorrelationID_nonempty: "newCorrelationID h \<noteq> ''''"
proof -
  have "base36 n \<noteq> ''''" for n by (subst base36.simps) simp
  then show ?thesis by (simp add: newCorrelationID_def format36_def split: option.split)
qed

lemma request_id_nonempty [simp]: "request_id h r \<noteq> ''''"
  by (simp add: request_id_def newCorrelationID_nonempty)

locale wrapped_handler =
  fixes sv :: service and next_h :: "request \<Rightarrow> reply \<Rightarrow> string option \<times> request \<times> reply"
  assumes next_extends: "next_h r (s, w) = (p, r2, s2, w2) \<Longrightarrow> CorrelationID (Context r) = i \<Longrightarrow> i \<noteq> '''' \<Longrightarrow>
      extends sv i s s2"
    and next_replies: "next_h r (s, w) = (p, r2, s2, w2) \<Longrightarrow> replies w w2"
    and next_request: "next_h r (s, w) = (p, r2, s2, w2) \<Longrightarrow> Context r2 = Context r \<and> Method r2 = Method r"
begin

lemma recovered_keeps:
  assumes "extends sv i s s1" and "CorrelationID (Context r) = i" and "i \<noteq> ''''"
    and "recovered sv panic r (s1, w1) = (s2, w2)"
  shows "extends sv i s s2"
  using assms by (auto simp: recovered_def intro: extends_log split: option.splits)

lemma recovered_reply:
  assumes "replies w w1" and "faithful w" and "recovered sv panic r (s1, w1) = (s2, w2)"
  shows "w_header (ResponseWriter w2) correlationHeader = w_header (ResponseWriter w) correlationHeader"
    and "w_status (ResponseWriter w2) = status w2"
proof -
  have c: "correlationHeader \<notin> set own_headers" "correlationHeader \<noteq> ''Content-Type''"
    by (simp_all add: correlationHeader_def own_headers_def)
  with assms(1,2) have w1: "w_header (ResponseWriter w1) correlationHeader = w_header (ResponseWriter w) correlationHeader"
    "w_status (ResponseWriter w1) = status w1" by (simp_all add: replies_def faithful_def)
  show "w_header (ResponseWriter w2) correlationHeader = w_header (ResponseWriter w) correlationHeader"
    using assms(3) w1(1) c(2) by (cases panic) (auto simp: recovered_def)
  show "w_status (ResponseWriter w2) = status w2"
    using assms(3) w1(2) by (cases panic) (auto simp: recovered_def)
qed

text \<open>One request: the effect on the state, the metrics and the response.\<close>

lemma observe_effect:
  assumes "observe sv h next_h r s = (s', out)"
  shows "store_reaches (sv_pg sv) (s_db s) (s_db s')" and "logs_more sv (request_id h r) s s'"
    and "HTTPInFlight (s_metrics s') = HTTPInFlight (s_metrics s)"
    and "\<exists>route. HTTPRequests (s_metrics s') =
      bump (HTTPRequests (s_metrics s)) (Method r, route, show_int (if w_status out = 0 then 200 else w_status out))"
    and "w_header out correlationHeader = Some (request_id h r)"
proof -
  let ?i = "request_id h r"
  let ?r1 = "r\<lparr>Context := WithCorrelationID (Context r) ?i\<rparr>"
  let ?w0 = "new_recorder (http_Set correlationHeader ?i new_writer)" and ?s1 = "add_in_flight 1 s"
  obtain p r2 s2 w2 where n: "next_h ?r1 (?s1, ?w0) = (p, r2, s2, w2)" by (cases "next_h ?r1 (?s1, ?w0)") auto
  obtain s3 w3 where rc: "recovered sv p r2 (s2, w2) = (s3, w3)" by fastforce
  from assms n rc have res: "s' = add_in_flight (- 1) (account sv h r2 w3 s3)" "out = ResponseWriter w3"
    by (simp_all add: observe_def Let_def)
  have req: "CorrelationID (Context r2) = ?i" "Method r2 = Method r" using next_request [OF n] by simp_all
  have "extends sv ?i ?s1 s2" using next_extends [OF n] by simp
  from recovered_keeps [OF this req(1) _ rc] have e: "extends sv ?i ?s1 s3" by simp
  then show "store_reaches (sv_pg sv) (s_db s) (s_db s')" by (simp add: res extends_def)
  from e have "logs_more sv ?i s s3" by (simp add: extends_def logs_more_cong [of ?s1 s])
  from account_logs [OF this req(1)] show "logs_more sv ?i s s'" by (simp add: res logs_more_def)
  from e show "HTTPInFlight (s_metrics s') = HTTPInFlight (s_metrics s)" by (simp add: res extends_def http_metrics_def)
  note rep = recovered_reply [OF next_replies [OF n] faithful_new rc]
  from e rep(2) req(2) show "\<exists>route. HTTPRequests (s_metrics s') =
      bump (HTTPRequests (s_metrics s)) (Method r, route, show_int (if w_status out = 0 then 200 else w_status out))"
    by (intro exI [of _ "routeLabel r2"]) (simp add: res extends_def http_metrics_def final_status_def)
  from rep(1) show "w_header out correlationHeader = Some ?i"
    by (simp add: res new_recorder_def http_Set_def)
qed

end

interpretation wh: wrapped_handler sv "mux_ServeHTTP sv h" for sv h
  by unfold_locales (simp_all add: mux_extends mux_replies)

section \<open>Sample requests\<close>

text \<open>A service and a request for the witnesses: Alice's token, a transfer from her wallet.\<close>

definition sample_service :: service where
  "sample_service =
     \<lparr>sv_pg = sample_pg, adminToken = ''root'', version = ''dev'', sv_level = LevelInfo, slog_line = lr_msg\<rparr>"

definition sample_server :: server where
  "sample_server = \<lparr>s_db = sample_db, s_metrics = NewMetrics, s_log = [], s_ring = NewRing 3\<rparr>"

definition sample_body :: "paise \<Rightarrow> transferRequestBody" where
  "sample_body n = \<lparr>b_From = wallet_a, b_To = wallet_b, b_AmountPaise = Some n, b_IdempotencyKey = ''order-1''\<rparr>"

definition sample_calls :: reqenv where
  "sample_calls =
     \<lparr>auth_call = calm 6 [], call1 = calm 7 [], call2 = calm 8 [], tx = quiet 9 transfer_1,
      replay_call = calm 9 [], others = (\<lambda>_. [])\<rparr>"

definition sample_env :: httpenv where
  "sample_env =
     \<lparr>calls = sample_calls, rnd = Some ''abc'', nanos = 0, elapsed = 1500, uptime = 1, ping = None, stream = [],
      prom = (\<lambda>_. (''text/plain'', 200, [])), doc_bytes = (\<lambda>_. 10), logs_html = [], dashboard_html = []\<rparr>"

definition sample_post :: "string \<Rightarrow> paise \<Rightarrow> request" where
  "sample_post token n =
     \<lparr>Method = ''POST'', Path = ''/transfers'',
      Header = (\<lambda>k. if k = ''Authorization'' then ''Bearer '' @ token else ''''), Query = (\<lambda>_. ''''),
      Body = encode_transfer (sample_body n), Pattern = '''', PathID = '''', Context = Some ''c-1''\<rparr>"

section \<open>Runs of the service\<close>

definition api_step :: "service \<Rightarrow> httpenv \<times> request \<Rightarrow> server \<Rightarrow> server" where
  "api_step sv q s = fst (serve sv (fst q) (snd q) s)"

definition api_run :: "service \<Rightarrow> (httpenv \<times> request) list \<Rightarrow> server \<Rightarrow> server" where
  "api_run sv qs s = fold (api_step sv) qs s"

text \<open>The books are in order, the ring mirrors the log, and no request is counted as in flight.\<close>

definition server_ok :: "service \<Rightarrow> server \<Rightarrow> bool" where
  "server_ok sv s \<longleftrightarrow> store_ok (s_db s) \<and> log_mirrored sv s \<and> HTTPInFlight (s_metrics s) = 0"

lemma logs_more_mirrored:
  assumes "logs_more sv i s s'" and "log_mirrored sv s"
  shows "log_mirrored sv s'"
proof -
  from assms(1) obtain recs where r: "s_log s' = s_log s @ recs"
    "s_ring s' = fold ring_push (map (slog_line sv) recs) (s_ring s)" by (auto simp: logs_more_def)
  from assms(2) have ok: "ring_ok (s_ring s)"
    and l: "ring_lines (s_ring s) = lastn (size_of (s_ring s)) (map (slog_line sv) (s_log s))"
    by (simp_all add: log_mirrored_def)
  show ?thesis
    unfolding log_mirrored_def r
    using rl.pushes_ok [OF ok, of "map (slog_line sv) recs"] rl.pushes_lines [OF ok, of "map (slog_line sv) recs"]
    by (simp add: l lastn_lastn)
qed

lemma serve_keeps: "server_ok sv s \<Longrightarrow> server_ok sv (api_step sv q s)"
proof -
  assume s: "server_ok sv s"
  obtain s' out where o: "serve sv (fst q) (snd q) s = (s', out)" by fastforce
  note e = wh.observe_effect [OF o [unfolded serve_def]]
  from s o e(1-3) show ?thesis
    by (auto simp: server_ok_def api_step_def intro: store_reaches_ok logs_more_mirrored)
qed

lemma new_server_ok: "server_ok sv (new_server n)"
  by (simp add: server_ok_def new_server_def store_ok_empty log_mirrored_def ring_ok_new NewMetrics_def lastn_def)

interpretation api: stepped_store "api_step sv" "server_ok sv" "new_server n" for sv n
  by unfold_locales (simp_all add: new_server_ok serve_keeps)

text \<open>
  C16: In every run of the service, over any requests with any failures, any interleaved calls of
  other requests and any sizes, the books stay in order, the ring holds exactly the most recent
  lines of the log, and the in-flight gauge returns to zero after every request.
\<close>

theorem every_request_keeps_books:
  "store_ok (s_db (api_run sv qs (new_server n))) \<and> log_mirrored sv (api_run sv qs (new_server n)) \<and>
   HTTPInFlight (s_metrics (api_run sv qs (new_server n))) = 0"
  using api.run_init_ok [of sv qs n] by (simp add: server_ok_def api_run_def)

section \<open>Accounting\<close>

text \<open>
  C17: Every request is accounted for exactly once: one request counter is raised by one, with the
  status that was sent (an empty reply counts as 200); the reply carries the correlation id of the
  request, which is never empty; the log only grows, and every new line carries that id, except
  the lines of the retry callback.
\<close>

theorem every_request_accounted:
  assumes "serve sv h r s = (s', out)"
  shows "(\<exists>route. HTTPRequests (s_metrics s') =
      bump (HTTPRequests (s_metrics s)) (Method r, route, show_int (if w_status out = 0 then 200 else w_status out))) \<and>
    w_header out ''X-Correlation-Id'' = Some (request_id h r) \<and> request_id h r \<noteq> '''' \<and>
    (\<exists>recs. s_log s' = s_log s @ recs \<and> (\<forall>x \<in> set recs. stamped (request_id h r) x \<or> is_retry_record x))"
  using wh.observe_effect(2,4,5) [OF assms [unfolded serve_def]]
  by (auto simp: correlationHeader_def logs_more_def)

theorem every_request_accounted_witness:
  "\<exists>route. HTTPRequests (s_metrics (fst (serve sample_service sample_env (sample_post '''' 300) sample_server))) =
     bump (HTTPRequests NewMetrics) (''POST'', route, ''401'')"
proof -
  obtain s' out where o: "serve sample_service sample_env (sample_post '''' 300) sample_server = (s', out)" by fastforce
  have "w_status (snd (serve sample_service sample_env (sample_post '''' 300) sample_server)) = 401" by code_simp
  moreover have "Method (sample_post '''' 300) = ''POST''" "s_metrics sample_server = NewMetrics"
    by (simp_all add: sample_post_def sample_server_def)
  moreover have "show_int 401 = ''401''" by code_simp
  ultimately show ?thesis using every_request_accounted [OF o] o by auto
qed

lemma level_value_le: "level_value l \<le> 8"
  by (cases l) simp_all

text \<open>
  C33: A handler that panics before it wrote anything becomes a 500 with an error document, counted
  as a 500; a panic after the reply began leaves the reply alone. In both cases the in-flight
  gauge is restored and the panic is logged with the id of the request.
\<close>

theorem panic_becomes_500:
  assumes "observe sv h next_h r s = (s', out)"
    and "next_h (r\<lparr>Context := Some (request_id h r)\<rparr>)
      (add_in_flight 1 s, new_recorder (http_Set correlationHeader (request_id h r) new_writer)) = (Some rv, r2, s2, w2)"
    and "extends sv (request_id h r) (add_in_flight 1 s) s2" and "Context r2 = Some (request_id h r)"
    and "w_status (ResponseWriter w2) = status w2" and "w_body (ResponseWriter w2) = written w2"
    and "status w2 = 0 \<longrightarrow> written w2 = []"
  shows "(status w2 = 0 \<longrightarrow> w_status out = 500 \<and>
      w_body out = [ErrorBody ''internal_error'' (Text ''unexpected server error'') (request_id h r)]) \<and>
    (status w2 \<noteq> 0 \<longrightarrow> out = ResponseWriter w2) \<and>
    HTTPInFlight (s_metrics s') = HTTPInFlight (s_metrics s) \<and>
    HTTPRequests (s_metrics s') (Method r2, routeLabel r2, show_int (if status w2 = 0 then 500 else status w2)) =
      Suc (HTTPRequests (s_metrics s) (Method r2, routeLabel r2, show_int (if status w2 = 0 then 500 else status w2))) \<and>
    (\<exists>x \<in> set (s_log s'). lr_msg x = ''panic recovered'' \<and> stamped (request_id h r) x)"
proof -
  let ?i = "request_id h r"
  obtain s3 w3 where rc: "recovered sv (Some rv) r2 (s2, w2) = (s3, w3)" by fastforce
  from assms(1,2) rc have res: "s' = add_in_flight (- 1) (account sv h r2 w3 s3)" "out = ResponseWriter w3"
    by (simp_all add: observe_def Let_def WithCorrelationID_def)
  let ?x = "Handle (Some ?i) \<lparr>lr_level = LevelError, lr_msg = ''panic recovered'',
      lr_attrs = [(''panic'', VString rv), (''path'', VString (Path r2))]\<rparr>"
  have l: "?x \<in> set (s_log s3)" using rc assms(4) level_value_le [of "sv_level sv"] by (auto simp: recovered_def log_at_def Let_def)
  have "set (s_log s3) \<subseteq> set (s_log s')" by (auto simp: res account_def log_at_def Let_def)
  moreover have "stamped ?i ?x" by (rule Handle_stamped) (simp_all add: CorrelationID_def)
  moreover have "lr_msg ?x = ''panic recovered''" by (simp add: Handle_def)
  ultimately have "\<exists>x \<in> set (s_log s'). lr_msg x = ''panic recovered'' \<and> stamped ?i x" using l by blast
  moreover have "s_metrics s3 = s_metrics s2" using rc by (auto simp: recovered_def)
  moreover have "http_metrics s2 = http_metrics (add_in_flight 1 s)" using assms(3) by (simp add: extends_def)
  moreover have "status w2 = 0 \<Longrightarrow> w_status out = 500 \<and> w_body out = [ErrorBody ''internal_error'' (Text ''unexpected server error'') ?i]
      \<and> final_status w3 = 500"
    using rc assms(4-7) by (auto simp: recovered_def res error_body_def CorrelationID_def final_status_def)
  moreover have "status w2 \<noteq> 0 \<Longrightarrow> w3 = w2" using rc by (auto simp: recovered_def)
  ultimately show ?thesis by (auto simp: res http_metrics_def final_status_def bump_def)
qed

theorem panic_becomes_500_witness:
  "w_status (snd (observe sample_service sample_env (\<lambda>r sw. (Some ''boom'', r, sw)) (sample_post ''alice'' 300) sample_server)) = 500"
proof -
  let ?r = "sample_post ''alice'' 300" and ?n = "\<lambda>r sw. (Some ''boom'', r, sw)"
  let ?i = "request_id sample_env ?r"
  let ?w = "new_recorder (http_Set correlationHeader ?i new_writer)"
  obtain s' out where o: "observe sample_service sample_env ?n ?r sample_server = (s', out)" by fastforce
  have w: "status ?w = 0" "w_status (ResponseWriter ?w) = status ?w" "w_body (ResponseWriter ?w) = written ?w" "written ?w = []"
    by (simp_all add: new_recorder_def http_Set_def new_writer_def)
  from panic_becomes_500 [OF o refl extends_refl _ w(2,3)] w(1,4) o show ?thesis by simp
qed

end
