(* ===== verification/Authority.thy ===== *)
theory Authority
  imports Api_Props
begin

text \<open>
  Who may do what: the owner of a wallet never changes, only the holder of the owner's token moves
  money out of it, requests without the right token have no effect, and the token matters only
  through its hash. The tables of users and of owners are two more instances of the interface
  \<open>append_only\<close>.
\<close>

section \<open>Owners are stable\<close>

definition owners :: "db \<Rightarrow> (uuid \<times> uuid) list" where
  "owners d = map (\<lambda>w. (w_id w, w_user_id w)) (wallets d)"

lemma owners_credit: "map (\<lambda>w. (w_id w, w_user_id w)) (credit i n t ws) = map (\<lambda>w. (w_id w, w_user_id w)) ws"
  by (simp add: credit_def update_where_def add_balance_def)

lemma owners_post [simp]: "owners (post t d) = owners d"
  by (simp add: owners_def post_def move_def owners_credit)

lemma owners_deposit [simp]: "owners (deposit m d) = owners d"
  by (simp add: owners_def deposit_def owners_credit)

lemma users_post [simp]: "users (post t d) = users d" "users (deposit m d) = users d"
  by (simp_all add: post_def deposit_def)

lemma UpsertUser_users:
  assumes "UpsertUser pg c token d = (r, d')"
  shows "\<exists>new. users d' = users d @ new" and "owners d' = owners d"
proof -
  from assms obtain x where "autocommit c (upsert_user_sql (TokenHash pg token) (q_uuid c) (q_now c) d) d = (x, d')"
    by (auto simp: UpsertUser_def split: prod.splits sum.splits)
  from autocommit_db [OF this] show "\<exists>new. users d' = users d @ new"
    by (auto simp: upsert_user_sql_def insert_user_Inr split: option.splits sum.splits)
  from UpsertUser_tables [OF assms] show "owners d' = owners d" by (simp add: owners_def)
qed

lemma UpsertUser_row:
  assumes "UpsertUser pg c token d = (Inr user, d')"
  shows "\<exists>u \<in> set (users d'). u_id u = User_ID user \<and> u_token_hash u = TokenHash pg token"
  using assms
  by (auto simp: UpsertUser_def autocommit_def upsert_user_sql_def insert_user_Inr
      split: query_outcome.splits option.splits sum.splits prod.splits dest!: find_Some_in)

lemma store_step_grows:
  assumes "store_ok d"
  shows "\<exists>new. users (store_step pg op d) = users d @ new" and "\<exists>new. owners (store_step pg op d) = owners d @ new"
proof -
  have "(\<exists>new. users (store_step pg op d) = users d @ new) \<and> (\<exists>new. owners (store_step pg op d) = owners d @ new)"
  proof (cases op)
    case (OpUpsertUser c token)
    obtain r d' where "UpsertUser pg c token d = (r, d')" by fastforce
    with UpsertUser_users [OF this] OpUpsertUser show ?thesis by simp
  next
    case (OpGetOrCreateWallet c userID)
    obtain r d' where "GetOrCreateWallet pg c userID d = (r, d')" by fastforce
    with GetOrCreateWallet_tables [OF this] OpGetOrCreateWallet show ?thesis by (auto simp: owners_def)
  next
    case (OpMint x i k n)
    obtain r d' rs where "Mint pg x i k n d = (r, d', rs)" by (metis prod_cases3)
    with Mint_db [OF this store_okD(1) [OF assms]] OpMint show ?thesis by auto
  next
    case (OpTransfer x c req)
    obtain r d' rs where "store_Transfer pg x c req d = (r, d', rs)" by (metis prod_cases3)
    with store_Transfer_db [OF this store_okD(1) [OF assms]] OpTransfer show ?thesis by auto
  qed
  then show "\<exists>new. users (store_step pg op d) = users d @ new" "\<exists>new. owners (store_step pg op d) = owners d @ new"
    by simp_all
qed

interpretation ulog: append_only "store_step pg" store_ok empty_db users for pg
  by unfold_locales (simp add: store_step_grows)

interpretation olog: append_only "store_step pg" store_ok empty_db owners for pg
  by unfold_locales (simp add: store_step_grows)

lemma run_users: "store_ok d \<Longrightarrow> u \<in> set (users d) \<Longrightarrow> u \<in> set (users (store_run pg ops d))"
  unfolding store_run_def by (rule ulog.run_member)

lemma run_owners: "store_ok d \<Longrightarrow> x \<in> set (owners d) \<Longrightarrow> x \<in> set (owners (store_run pg ops d))"
  unfolding store_run_def by (rule olog.run_member)

lemma GetWallet_owner:
  assumes "GetWallet pg c i d = Inr wallet"
  shows "\<exists>f. bind_uuid pg i = Inr f \<and> (f, UserID wallet) \<in> set (owners d)"
  using assms
  by (auto simp: GetWallet_def query_row_def select_wallet_def owners_def wallet_of_def
      split: query_outcome.splits sum.splits option.splits if_splits dest!: find_Some_in)

section \<open>Only the owner moves money\<close>

text \<open>The store calls that take effect before the transaction of a request.\<close>

definition calls_before :: "reqenv \<Rightarrow> string \<Rightarrow> store_op list" where
  "calls_before e token =
     others e 0 @ OpUpsertUser (auth_call e) token # others e 1 @ others e 2 @ others e 3"

lemma elsewhere_db [simp]: "s_db (elsewhere sv e k s) = store_run (sv_pg sv) (others e k) (s_db s)"
  by (simp add: elsewhere_def)

lemma store_run_append: "store_run pg (xs @ ys) d = store_run pg ys (store_run pg xs d)"
  by (simp add: store_run_def)

lemma store_run_Cons: "store_run pg (op # ops) d = store_run pg ops (store_step pg op d)"
  by (simp add: store_run_def)

lemma precheck_db:
  assumes "precheck sv e user r b (s, w) = Inr (s', w')"
  shows "s_db s' = store_run (sv_pg sv) (others e 1) (s_db s) \<or>
    s_db s' = store_run (sv_pg sv) (others e 1 @ others e 2) (s_db s)"
  using assms by (auto simp: Let_def store_run_append split: sum.splits if_splits)

lemma precheck_passed:
  assumes "precheck sv e user r b (s, w) = Inl s'"
  shows "s_db s' = store_run (sv_pg sv) (others e 1 @ others e 2) (s_db s)"
    and "\<exists>f. bind_uuid (sv_pg sv) (b_From b) = Inr f \<and>
      (f, User_ID user) \<in> set (owners (store_run (sv_pg sv) (others e 1) (s_db s)))"
  using assms by (auto simp: Let_def store_run_append split: sum.splits if_splits dest!: GetWallet_owner)

lemma transfer_replies_db:
  "s_db (fst (transfer_failed sv r b err (s, w))) = s_db s"
  "s_db (fst (transfer_done sv r res (s, w))) = s_db s"
  "s_db (fst (rejectTransfer sv r code msg (s, w))) = s_db s"
  by (simp_all add: rejectTransfer_def Let_def)

text \<open>The part of the transfer handler after the checks.\<close>

definition requested :: "service \<Rightarrow> reqenv \<Rightarrow> request \<Rightarrow> transferRequestBody \<Rightarrow> server \<Rightarrow> server" where
  "requested sv e r b s =
     elsewhere sv e 3 (log_at sv LevelInfo (Context r) ''transfer requested''
       [(''event'', VString ''transfer_created''), (''from'', VString (b_From b)), (''to'', VString (b_To b)),
        (''amount_paise'', VInt (amount_of b)), (''idempotency_key'', VString (b_IdempotencyKey b))] s)"

definition after_call :: "service \<Rightarrow> request \<Rightarrow> transferRequestBody \<Rightarrow> statusRecorder \<Rightarrow>
    server \<Rightarrow> (error + TransferResult) \<times> db \<times> retries \<Rightarrow> reply" where
  "after_call sv r b w s c =
     (let s4 = fold (on_retry sv) (snd (snd c)) (s\<lparr>s_db := fst (snd c)\<rparr>) in
      case fst c of Inl err \<Rightarrow> transfer_failed sv r b err (s4, w) | Inr tr \<Rightarrow> transfer_done sv r tr (s4, w))"

lemma handleCreateTransfer_call:
  assumes "decode_transfer (Body r) = Inr b" and "validate_transfer b = None" and "precheck sv e user r b (s, w) = Inl s1"
  shows "handleCreateTransfer sv e user r (s, w) =
    after_call sv r b w (requested sv e r b s1)
      (store_Transfer (sv_pg sv) (tx e) (replay_call e) (store_request user b) (s_db (requested sv e r b s1)))"
  using assms
  by (simp add: Let_def after_call_def requested_def case_prod_unfold
      del: precheck.simps transfer_failed.simps transfer_done.simps elsewhere_db)

lemma after_call_db [simp]: "s_db (fst (after_call sv r b w s c)) = fst (snd c)"
  by (cases "fst c") (simp_all add: after_call_def Let_def transfer_replies_db
      del: transfer_failed.simps transfer_done.simps)

lemma requested_db [simp]: "s_db (requested sv e r b s) = store_run (sv_pg sv) (others e 3) (s_db s)"
  by (simp add: requested_def)

text \<open>The transfer handler: how far it came, and what it did to the database.\<close>

lemma handleCreateTransfer_db:
  assumes "store_ok (s_db s)" and "handleCreateTransfer sv e user r (s, w) = (s', w')"
  obtains (refused) ops where "ops \<in> {[], others e 1, others e 1 @ others e 2}" "s_db s' = store_run (sv_pg sv) ops (s_db s)"
  | (called) b f where "decode_transfer (Body r) = Inr b" "validate_transfer b = None"
      "bind_uuid (sv_pg sv) (b_From b) = Inr f"
      "(f, User_ID user) \<in> set (owners (store_run (sv_pg sv) (others e 1 @ others e 2 @ others e 3) (s_db s)))"
      "s_db s' = store_step (sv_pg sv) (OpTransfer (tx e) (replay_call e) (store_request user b))
        (store_run (sv_pg sv) (others e 1 @ others e 2 @ others e 3) (s_db s))"
proof (cases "decode_transfer (Body r)")
  case (Inl err)
  with assms(2) show ?thesis by (intro refused [of "[]"]) (auto simp: store_run_def)
next
  case dec: (Inr b)
  show ?thesis
  proof (cases "validate_transfer b")
    case (Some cm)
    with assms(2) dec transfer_replies_db(3) [of sv r "fst cm" "snd cm" s w] show ?thesis
      by (intro refused [of "[]"]) (auto simp: store_run_def split: prod.splits)
  next
    case val: None
    show ?thesis
    proof (cases "precheck sv e user r b (s, w)")
      case (Inr a)
      with assms(2) dec val have "precheck sv e user r b (s, w) = Inr (s', w')" by (simp del: precheck.simps)
      from precheck_db [OF this] show ?thesis
        using refused [of "others e 1"] refused [of "others e 1 @ others e 2"] by blast
    next
      case pre: (Inl s1)
      note p = precheck_passed [OF pre]
      let ?d3 = "store_run (sv_pg sv) (others e 1 @ others e 2 @ others e 3) (s_db s)"
      have "s_db s' = s_db (fst (handleCreateTransfer sv e user r (s, w)))" using assms(2) by simp
      also have "\<dots> = store_step (sv_pg sv) (OpTransfer (tx e) (replay_call e) (store_request user b)) ?d3"
        unfolding handleCreateTransfer_call [OF dec val pre] by (simp add: p(1) store_run_append)
      finally have "s_db s' = \<dots>" .
      moreover from p(2) obtain f where f: "bind_uuid (sv_pg sv) (b_From b) = Inr f"
        "(f, User_ID user) \<in> set (owners (store_run (sv_pg sv) (others e 1) (s_db s)))" by blast
      moreover from run_owners [OF store_run_ok [OF assms(1)] f(2), of _ "others e 2 @ others e 3"]
      have "(f, User_ID user) \<in> set (owners ?d3)" by (simp add: store_run_append)
      ultimately show ?thesis by (intro called [OF dec val])
    qed
  qed
qed

lemma take_into: "take (length xs + Suc j) (xs @ y # ys) = xs @ y # take j ys"
  by simp

text \<open>The user that a token names, with the wallets that the user owns.\<close>

definition token_owns :: "pg \<Rightarrow> string \<Rightarrow> uuid \<Rightarrow> db \<Rightarrow> User \<Rightarrow> bool" where
  "token_owns pg token f d user \<longleftrightarrow>
     list_ex (\<lambda>u. u_id u = User_ID user \<and> u_token_hash u = TokenHash pg token) (users d) \<and>
     (f, User_ID user) \<in> set (owners d)"

text \<open>
  C5: Only the owner moves money. A \<open>POST /transfers\<close> changes the database by the calls of other
  requests and by registering its token, and at most in one more way: it calls \<open>Transfer\<close> once,
  with the decoded and validated body, for the user whose token hash it presented, and only when
  that user owns the source wallet at the moment of the call.
\<close>

theorem only_owner_moves_money:
  assumes "store_ok (s_db s)" and "dispatch sv h RCreateTransfer r (s, w) = (s', w')"
  shows "(\<exists>token k. s_db s' = store_run (sv_pg sv) (take k (calls_before (calls h) token)) (s_db s)) \<or>
    (\<exists>token b f user d. bearerToken r = Some token \<and> decode_transfer (Body r) = Inr b \<and>
       validate_transfer b = None \<and> bind_uuid (sv_pg sv) (b_From b) = Inr f \<and>
       d = store_run (sv_pg sv) (calls_before (calls h) token) (s_db s) \<and> token_owns (sv_pg sv) token f d user \<and>
       s_db s' = store_step (sv_pg sv) (OpTransfer (tx (calls h)) (replay_call (calls h)) (store_request user b)) d)"
proof (cases "bearerToken r")
  case None
  with assms(2) have "s' = s" by simp
  then show ?thesis by (intro disjI1 exI [of _ 0] exI) (simp add: store_run_def)
next
  case (Some token)
  let ?pg = "sv_pg sv" and ?e = "calls h"
  let ?d0 = "store_run ?pg (others ?e 0) (s_db s)"
  obtain res d1 where u: "UpsertUser ?pg (auth_call ?e) token ?d0 = (res, d1)" by fastforce
  have ok1: "store_ok d1" using UpsertUser_store_ok [OF store_run_ok [OF assms(1)] u] .
  have pre: "store_run ?pg (others ?e 0 @ OpUpsertUser (auth_call ?e) token # ops) (s_db s) = store_run ?pg ops d1" for ops
    using u by (simp add: store_run_append store_run_Cons)
  have some: "\<exists>k. store_run ?pg ops d1 = store_run ?pg (take k (calls_before ?e token)) (s_db s)"
    if "ops = take j (others ?e 1 @ others ?e 2 @ others ?e 3)" for ops j
    by (rule exI [of _ "length (others ?e 0) + Suc j"])
      (simp only: calls_before_def take_into pre that)
  show ?thesis
  proof (cases res)
    case (Inl err)
    with assms(2) Some u have "s_db s' = d1" by (auto simp: Let_def)
    with some [of "[]" 0] show ?thesis by (auto simp: store_run_def)
  next
    case (Inr user)
    let ?r = "r\<lparr>Context := WithCorrelationID (Context r) (CorrelationID (Context r))\<rparr>"
    let ?s1 = "(elsewhere sv ?e 0 s)\<lparr>s_db := d1\<rparr>"
    have hd: "handleCreateTransfer sv ?e user ?r (?s1, w) = (s', w')"
      using assms(2) Some u Inr by (simp add: Let_def del: handleCreateTransfer.simps)
    from UpsertUser_row [OF u [unfolded Inr]] obtain row where row: "row \<in> set (users d1)" "u_id row = User_ID user"
      "u_token_hash row = TokenHash ?pg token" by blast
    have "store_ok (s_db ?s1)" using ok1 by simp
    from this hd show ?thesis
    proof (cases rule: handleCreateTransfer_db)
      case (refused ops)
      then obtain j where "ops = take j (others ?e 1 @ others ?e 2 @ others ?e 3)"
        by (auto intro: that [of 0] that [of "length (others ?e 1)"] that [of "length (others ?e 1) + length (others ?e 2)"])
      from some [OF this] refused(2) show ?thesis by auto
    next
      case (called b f)
      let ?d = "store_run ?pg (calls_before ?e token) (s_db s)"
      have d: "?d = store_run ?pg (others ?e 1 @ others ?e 2 @ others ?e 3) d1" by (simp add: calls_before_def pre)
      have "token_owns ?pg token f ?d user"
        using called(4) run_users [OF ok1 row(1)] row(2,3) by (auto simp: token_owns_def d list_ex_iff)
      with called Some d show ?thesis by (intro disjI2) (auto simp: d)
    qed
  qed
qed

text \<open>The course of an undisturbed and accepted request, and the sample request as an instance.\<close>

lemma alone: "others e = (\<lambda>_. []) \<Longrightarrow> elsewhere sv e k s = s"
  by (simp add: elsewhere_def store_run_def)

definition authed :: "request \<Rightarrow> request" where
  "authed r = r\<lparr>Context := WithCorrelationID (Context r) (CorrelationID (Context r))\<rparr>"

lemma dispatch_transfer:
  assumes "others (calls h) = (\<lambda>_. [])" and "bearerToken r = Some token"
    and "UpsertUser (sv_pg sv) (auth_call (calls h)) token (s_db s) = (Inr user, d1)"
    and "decode_transfer (Body r) = Inr b" and "validate_transfer b = None"
    and "GetWallet (sv_pg sv) (call1 (calls h)) (b_From b) d1 = Inr src" and "UserID src = User_ID user"
    and "GetWallet (sv_pg sv) (call2 (calls h)) (b_To b) d1 = Inr dst"
  shows "dispatch sv h RCreateTransfer r (s, w) =
    after_call sv (authed r) b w (requested sv (calls h) (authed r) b (s\<lparr>s_db := d1\<rparr>))
      (store_Transfer (sv_pg sv) (tx (calls h)) (replay_call (calls h)) (store_request user b) d1)"
proof -
  let ?e = "calls h" and ?s = "s\<lparr>s_db := d1\<rparr>"
  have pre: "precheck sv ?e user (authed r) b (?s, w) = Inl ?s"
    by (simp add: alone [OF assms(1)] Let_def assms(6-8))
  have "dispatch sv h RCreateTransfer r (s, w) = handleCreateTransfer sv ?e user (authed r) (?s, w)"
    using assms(2,3) by (simp add: alone [OF assms(1)] Let_def authed_def del: handleCreateTransfer.simps)
  also have "\<dots> = after_call sv (authed r) b w (requested sv ?e (authed r) b ?s)
      (store_Transfer (sv_pg sv) (tx ?e) (replay_call ?e) (store_request user b) (s_db (requested sv ?e (authed r) b ?s)))"
    by (rule handleCreateTransfer_call [OF _ assms(5) pre]) (simp add: assms(4) authed_def)
  finally show ?thesis using assms(1) by (simp add: store_run_def)
qed

lemma sample_decode: "decode_transfer (Body (sample_post token 300)) = Inr (sample_body 300)"
proof -
  have "length (encode_transfer (sample_body 300)) \<le> maxBodyBytes" by code_simp
  then have "decode_transfer (encode_transfer (sample_body 300)) = Inr (sample_body 300)"
    by (intro decode_encoded [of _ 300])
      (simp_all add: sample_body_def plain_def wallet_a_def wallet_b_def in_int64_def int64_min_def int64_max_def)
  then show ?thesis by (simp add: sample_post_def)
qed

lemma sample_parts:
  "calls sample_env = sample_calls" "sv_pg sample_service = sample_pg" "s_db sample_server = sample_db"
  "others sample_calls = (\<lambda>_. [])"
  by (simp_all add: sample_env_def sample_service_def sample_server_def sample_calls_def)

lemma sample_exchange:
  "others (calls sample_env) = (\<lambda>_. [])" "bearerToken (sample_post ''alice'' 300) = Some ''alice''"
  "UpsertUser (sv_pg sample_service) (auth_call (calls sample_env)) ''alice'' (s_db sample_server) =
     (Inr \<lparr>User_ID = alice\<rparr>, sample_db)"
  "validate_transfer (sample_body 300) = None"
  "GetWallet (sv_pg sample_service) (call1 (calls sample_env)) (b_From (sample_body 300)) sample_db =
     Inr \<lparr>ID = wallet_a, UserID = alice, BalancePaise = 1000, CreatedAt = 3\<rparr>"
  "GetWallet (sv_pg sample_service) (call2 (calls sample_env)) (b_To (sample_body 300)) sample_db =
     Inr \<lparr>ID = wallet_b, UserID = bob, BalancePaise = 0, CreatedAt = 4\<rparr>"
       apply (simp add: sample_parts)
      apply code_simp+
  done

lemma sample_call:
  "store_Transfer (sv_pg sample_service) (tx (calls sample_env)) (replay_call (calls sample_env))
     (store_request \<lparr>User_ID = alice\<rparr> (sample_body 300)) sample_db =
   (Inr \<lparr>transfer = answered (sample_req 300) (sample_row 300 True), Replay = False\<rparr>, post (sample_row 300 True) sample_db, [])"
proof -
  have "store_request \<lparr>User_ID = alice\<rparr> (sample_body 300) = sample_req 300"
    by (simp add: store_request_def sample_body_def sample_req_def amount_of_def)
  then show ?thesis using sample_success [of 300] by (simp add: sample_parts sample_calls_def)
qed

theorem only_owner_moves_money_witness:
  "s_db (fst (dispatch sample_service sample_env RCreateTransfer (sample_post ''alice'' 300)
     (sample_server, new_recorder new_writer))) = post (sample_row 300 True) sample_db \<and>
   (\<exists>f user d. bind_uuid sample_pg wallet_a = Inr f \<and> token_owns sample_pg ''alice'' f d user)"
proof -
  let ?r = "sample_post ''alice'' 300"
  obtain s' w' where d: "dispatch sample_service sample_env RCreateTransfer ?r (sample_server, new_recorder new_writer) = (s', w')"
    by fastforce
  have db: "s_db s' = post (sample_row 300 True) sample_db"
    using d arg_cong [OF dispatch_transfer [OF sample_exchange(1-3) sample_decode sample_exchange(4,5) _ sample_exchange(6),
        of "new_recorder new_writer"], of "\<lambda>p. s_db (fst p)"]
    unfolding sample_parts sample_call [unfolded sample_parts] by (simp del: dispatch.simps)
  have "transfers (store_run sample_pg (take k (calls_before sample_calls token)) sample_db) = transfers sample_db" for k token
    using UpsertUser_tables [OF surjective_pairing, of sample_pg "auth_call sample_calls" token sample_db]
    by (cases k) (auto simp: sample_parts calls_before_def store_run_def)
  moreover have "transfers (s_db s') \<noteq> transfers sample_db" by (simp add: db post_def)
  ultimately have "\<nexists>token k. s_db s' = store_run sample_pg (take k (calls_before sample_calls token)) sample_db" by metis
  with only_owner_moves_money [of sample_server, OF _ d] sample_exchange(2) sample_decode d db show ?thesis
    by (auto simp: sample_parts sample_body_def simp del: dispatch.simps)
qed

section \<open>Tokens gate the writes\<close>

lemma bearerToken_header [simp]:
  "bearerToken (r\<lparr>Context := c\<rparr>) = bearerToken r" "bearerToken (r\<lparr>Pattern := p\<rparr>) = bearerToken r"
  "bearerToken (r\<lparr>PathID := i\<rparr>) = bearerToken r"
  by (simp_all add: bearerToken_def)

text \<open>The request as the mux sees it, and the effect of a request on the database.\<close>

definition received :: "httpenv \<Rightarrow> request \<Rightarrow> request" where
  "received h r = r\<lparr>Context := WithCorrelationID (Context r) (request_id h r)\<rparr>"

definition fresh_reply :: "httpenv \<Rightarrow> request \<Rightarrow> server \<Rightarrow> reply" where
  "fresh_reply h r s = (add_in_flight 1 s, new_recorder (http_Set correlationHeader (request_id h r) new_writer))"

lemma serve_db: "s_db (fst (serve sv h r s)) = s_db (fst (snd (snd (mux_ServeHTTP sv h (received h r) (fresh_reply h r s)))))"
proof -
  obtain p r2 s2 w2 where m: "mux_ServeHTTP sv h (received h r) (fresh_reply h r s) = (p, r2, s2, w2)"
    by (cases "mux_ServeHTTP sv h (received h r) (fresh_reply h r s)") auto
  then have "p = None" unfolding fresh_reply_def by (rule mux_replies)
  with m show ?thesis
    by (simp add: serve_def observe_def Let_def received_def [symmetric] fresh_reply_def [symmetric] recovered_def)
qed

lemma mux_db:
  obtains "s_db (fst (snd (snd (mux_ServeHTTP sv h r (s, w))))) = s_db s"
  | rt pat i where "s_db (fst (snd (snd (mux_ServeHTTP sv h r (s, w))))) =
      s_db (fst (dispatch sv h rt (r\<lparr>Pattern := pat, PathID := i\<rparr>) (s, w)))"
  by (cases "mux_find (Method r) (Path r)") (simp_all add: mux_ServeHTTP_def Let_def)

lemma dispatch_readonly:
  assumes "others (calls h) = (\<lambda>_. [])" and "bearerToken r = None"
  shows "s_db (fst (dispatch sv h rt r (s, w))) = s_db s"
  using assms by (cases rt) (simp_all add: alone Let_def split: sum.split)

lemma authenticate_mints:
  assumes "others e = (\<lambda>_. [])" and "store_ok (s_db s)"
    and "\<And>user r' s1. store_ok (s_db s1) \<Longrightarrow> mints (s_db (fst (next_h user r' (s1, w)))) = mints (s_db s1)"
  shows "mints (s_db (fst (authenticate sv e next_h r (s, w)))) = mints (s_db s)"
proof (cases "bearerToken r")
  case (Some token)
  obtain res d where u: "UpsertUser (sv_pg sv) (auth_call e) token (s_db s) = (res, d)" by fastforce
  have "store_ok d" using UpsertUser_store_ok [OF assms(2) u] .
  with Some u UpsertUser_tables [OF u] assms(1,3) show ?thesis by (cases res) (simp_all add: alone Let_def)
qed simp

lemma handler_mints:
  assumes "others e = (\<lambda>_. [])" and "store_ok (s_db s)"
  shows "mints (s_db (fst (handleCreateWallet sv e user r (s, w)))) = mints (s_db s)"
    and "mints (s_db (fst (handleGetWallet sv e user r (s, w)))) = mints (s_db s)"
    and "mints (s_db (fst (handleCreateTransfer sv e user r (s, w)))) = mints (s_db s)"
    and "mints (s_db (fst (handleGetTransfer sv e user r (s, w)))) = mints (s_db s)"
proof -
  obtain res d where c: "GetOrCreateWallet (sv_pg sv) (call1 e) (User_ID user) (s_db s) = (res, d)" by fastforce
  from GetOrCreateWallet_tables [OF c] c assms(1)
  show "mints (s_db (fst (handleCreateWallet sv e user r (s, w)))) = mints (s_db s)"
    by (auto simp: alone Let_def split: sum.split)
  obtain s' w' where h: "handleCreateTransfer sv e user r (s, w) = (s', w')" by fastforce
  from assms(2) h have "mints (s_db s') = mints (s_db s)"
  proof (cases rule: handleCreateTransfer_db)
    case (refused ops)
    with assms(1) show ?thesis by (auto simp: store_run_def)
  next
    case (called b f)
    obtain res d rs where t: "store_Transfer (sv_pg sv) (tx e) (replay_call e) (store_request user b) (s_db s) = (res, d, rs)"
      by (metis prod_cases3)
    from store_Transfer_db [OF t store_okD(1) [OF assms(2)]] called(5) t assms(1) show ?thesis
      by (auto simp: store_run_def post_def)
  qed
  with h show "mints (s_db (fst (handleCreateTransfer sv e user r (s, w)))) = mints (s_db s)"
    by (simp del: handleCreateTransfer.simps)
qed (use assms(1) in \<open>simp_all add: alone Let_def split: sum.split\<close>)

lemma dispatch_mints:
  assumes "others (calls h) = (\<lambda>_. [])" and "store_ok (s_db s)" and "bearerToken r \<noteq> Some (adminToken sv)"
  shows "mints (s_db (fst (dispatch sv h rt r (s, w)))) = mints (s_db s)"
  using assms
  by (cases rt)
    (simp_all add: authenticate_mints handler_mints alone Let_def
      del: handleCreateWallet.simps handleGetWallet.simps handleCreateTransfer.simps handleGetTransfer.simps
        authenticate.simps
      split: sum.split option.split)

text \<open>
  C10: Tokens gate the writes, whatever the method, path and body: a request without a bearer token
  leaves the database as it is, and a request whose token is not the admin token mints nothing.
\<close>

theorem tokens_gate_writes:
  assumes "store_ok (s_db s)" and "others (calls h) = (\<lambda>_. [])" and "serve sv h r s = (s', out)"
  shows "(bearerToken r = None \<longrightarrow> s_db s' = s_db s) \<and>
    (bearerToken r \<noteq> Some (adminToken sv) \<longrightarrow> mints (s_db s') = mints (s_db s))"
proof -
  let ?s1 = "add_in_flight 1 s" and ?w = "new_recorder (http_Set correlationHeader (request_id h r) new_writer)"
  have r: "bearerToken (received h r) = bearerToken r" by (simp add: received_def)
  have s': "s_db s' = s_db (fst (snd (snd (mux_ServeHTTP sv h (received h r) (?s1, ?w)))))"
    using serve_db [of sv h r s] assms(3) by (simp add: fresh_reply_def)
  show ?thesis
  proof (cases rule: mux_db [of sv h "received h r" ?s1 ?w])
    case 1
    with s' show ?thesis by simp
  next
    case (2 rt pat i)
    with s' r dispatch_readonly [OF assms(2), of "(received h r)\<lparr>Pattern := pat, PathID := i\<rparr>" sv rt ?s1 ?w]
      dispatch_mints [OF assms(2), of ?s1 "(received h r)\<lparr>Pattern := pat, PathID := i\<rparr>" sv rt ?w] assms(1)
    show ?thesis by simp
  qed
qed

theorem tokens_gate_writes_witness:
  "s_db (fst (serve sample_service sample_env ((sample_post '''' 300)\<lparr>Path := ''/admin/mint''\<rparr>) sample_server)) = sample_db"
proof -
  let ?r = "(sample_post '''' 300)\<lparr>Path := ''/admin/mint''\<rparr>"
  obtain s' out where d: "serve sample_service sample_env ?r sample_server = (s', out)" by fastforce
  have h: "store_ok (s_db sample_server)" "others (calls sample_env) = (\<lambda>_. [])" "s_db sample_server = sample_db"
    by (simp_all add: sample_server_def sample_env_def sample_calls_def)
  have "bearerToken ?r = None" by code_simp
  with tokens_gate_writes [OF h(1,2) d] d h(3) show ?thesis by simp
qed

section \<open>The token matters only through its hash\<close>

lemma writers_header [simp]:
  "error_body (r\<lparr>Header := g\<rparr>) c m = error_body r c m"
  "writeError (r\<lparr>Header := g\<rparr>) st c m w = writeError r st c m w"
  by (simp_all add: writeError_def error_body_def)

lemma transfer_parts_header [simp]:
  "rejectTransferStatus sv (r\<lparr>Header := g\<rparr>) st c m (s, w) = rejectTransferStatus sv r st c m (s, w)"
  "rejectTransfer sv (r\<lparr>Header := g\<rparr>) c m (s, w) = rejectTransfer sv r c m (s, w)"
  "transfer_failed sv (r\<lparr>Header := g\<rparr>) b err (s, w) = transfer_failed sv r b err (s, w)"
  "transfer_done sv (r\<lparr>Header := g\<rparr>) res (s, w) = transfer_done sv r res (s, w)"
  "precheck sv e user (r\<lparr>Header := g\<rparr>) b (s, w) = precheck sv e user r b (s, w)"
  by (simp_all add: rejectTransfer_def Let_def split: sum.split)

lemma handlers_header [simp]:
  "handleCreateWallet sv e user (r\<lparr>Header := g\<rparr>) (s, w) = handleCreateWallet sv e user r (s, w)"
  "handleGetWallet sv e user (r\<lparr>Header := g\<rparr>) (s, w) = handleGetWallet sv e user r (s, w)"
  "handleCreateTransfer sv e user (r\<lparr>Header := g\<rparr>) (s, w) = handleCreateTransfer sv e user r (s, w)"
  "handleGetTransfer sv e user (r\<lparr>Header := g\<rparr>) (s, w) = handleGetTransfer sv e user r (s, w)"
  "handleMint sv e (r\<lparr>Header := g\<rparr>) (s, w) = handleMint sv e r (s, w)"
  "handleInvariants sv e (r\<lparr>Header := g\<rparr>) (s, w) = handleInvariants sv e r (s, w)"
  by (simp_all add: Let_def split: sum.split option.split prod.split
      del: precheck.simps transfer_failed.simps transfer_done.simps rejectTransferStatus.simps)

lemma pages_header [simp]:
  "handleHealth sv h (r\<lparr>Header := g\<rparr>) w = handleHealth sv h r w"
  "handleReady h (r\<lparr>Header := g\<rparr>) w = handleReady h r w"
  "handleIndex sv (r\<lparr>Header := g\<rparr>) w = handleIndex sv r w"
  "handleLogsRecent s (r\<lparr>Header := g\<rparr>) w = handleLogsRecent s r w"
  "handleLogStream h s (r\<lparr>Header := g\<rparr>) w = handleLogStream h s r w"
  by (simp_all add: handleHealth_def handleReady_def handleIndex_def handleLogsRecent_def handleLogStream_def
      recent_count_def)

text \<open>Two sets of headers with tokens that the service cannot tell apart.\<close>

definition same_caller :: "service \<Rightarrow> request \<Rightarrow> (string \<Rightarrow> string) \<Rightarrow> bool" where
  "same_caller sv r g \<longleftrightarrow>
     g correlationHeader = Header r correlationHeader \<and>
     (case (bearerToken r, bearerToken (r\<lparr>Header := g\<rparr>)) of
        (Some t1, Some t2) \<Rightarrow>
          TokenHash (sv_pg sv) t1 = TokenHash (sv_pg sv) t2 \<and> (t1 = adminToken sv \<longleftrightarrow> t2 = adminToken sv)
      | (None, None) \<Rightarrow> True
      | _ \<Rightarrow> False)"

lemma same_caller_cases:
  assumes "same_caller sv r g"
  obtains (no) "bearerToken r = None" "bearerToken (r\<lparr>Header := g\<rparr>) = None"
  | (yes) t1 t2 where "bearerToken r = Some t1" "bearerToken (r\<lparr>Header := g\<rparr>) = Some t2"
      "TokenHash (sv_pg sv) t1 = TokenHash (sv_pg sv) t2" "t1 = adminToken sv \<longleftrightarrow> t2 = adminToken sv"
  using assms by (auto simp: same_caller_def split: option.splits)

lemma header_last:
  "r\<lparr>Header := g, Context := c\<rparr> = (r\<lparr>Context := c\<rparr>)\<lparr>Header := g\<rparr>"
  "r\<lparr>Header := g, Pattern := p\<rparr> = (r\<lparr>Pattern := p\<rparr>)\<lparr>Header := g\<rparr>"
  "r\<lparr>Header := g, PathID := i\<rparr> = (r\<lparr>PathID := i\<rparr>)\<lparr>Header := g\<rparr>"
  by simp_all

lemma authenticate_same:
  assumes "same_caller sv r g" and "\<And>user r' s w. next_h user (r'\<lparr>Header := g\<rparr>) (s, w) = next_h user r' (s, w)"
  shows "authenticate sv e next_h (r\<lparr>Header := g\<rparr>) (s, w) = authenticate sv e next_h r (s, w)"
  using assms(1)
proof (cases rule: same_caller_cases)
  case (yes t1 t2)
  then show ?thesis
    by (simp add: UpsertUser_def Let_def header_last assms(2) split: sum.split prod.split)
qed simp

lemma requireAdmin_same:
  assumes "same_caller sv r g" and "\<And>s w. next_h (r\<lparr>Header := g\<rparr>) (s, w) = next_h r (s, w)"
  shows "requireAdmin sv next_h (r\<lparr>Header := g\<rparr>) (s, w) = requireAdmin sv next_h r (s, w)"
  using assms(1) by (cases rule: same_caller_cases) (simp_all add: assms(2))

lemma dispatch_same:
  assumes "same_caller sv r g"
  shows "dispatch sv h rt (r\<lparr>Header := g\<rparr>) (s, w) = dispatch sv h rt r (s, w)"
  using assms
  by (cases rt) (simp_all add: authenticate_same requireAdmin_same del: handler_simps_del)

text \<open>
  C11: The token is never logged and never stored: state, metrics, log and reply of any request
  depend on the bearer token only through its SHA-256 and whether it is the admin token. Two
  requests that differ in nothing else have the same outcome in every component.
\<close>

theorem token_only_through_hash:
  assumes "same_caller sv r g"
  shows "serve sv h (r\<lparr>Header := g\<rparr>) s = serve sv h r s"
proof -
  have i: "request_id h (r\<lparr>Header := g\<rparr>) = request_id h r"
    using assms by (simp add: request_id_def same_caller_def)
  let ?r = "r\<lparr>Context := WithCorrelationID (Context r) (request_id h r)\<rparr>"
  have m: "mux_ServeHTTP sv h (?r\<lparr>Header := g\<rparr>) (s1, w) =
      (case mux_ServeHTTP sv h ?r (s1, w) of (p, r2, sw) \<Rightarrow> (p, r2\<lparr>Header := g\<rparr>, sw))" for s1 w
  proof (cases "mux_find (Method r) (Path r)")
    case (Matched pat j rt)
    have "same_caller sv (?r\<lparr>Pattern := pat, PathID := j\<rparr>) g"
      using assms by (simp add: same_caller_def bearerToken_def)
    from dispatch_same [OF this, of h rt s1 w] Matched show ?thesis by (simp add: mux_ServeHTTP_def Let_def header_last)
  qed (simp_all add: mux_ServeHTTP_def header_last)
  have "routeLabel (r2\<lparr>Header := g\<rparr>) = routeLabel r2" for r2 by (simp add: routeLabel_def)
  then have a: "account sv h (r2\<lparr>Header := g\<rparr>) w2 s2 = account sv h r2 w2 s2" for r2 w2 s2
    by (simp add: account_def Let_def)
  have c: "recovered sv p (r2\<lparr>Header := g\<rparr>) sw = recovered sv p r2 sw" for p r2 sw
    by (simp add: recovered_def split: option.split prod.split)
  show ?thesis by (simp add: serve_def observe_def Let_def i header_last m a c case_prod_unfold)
qed

theorem token_only_through_hash_witness:
  "let sv = sample_service\<lparr>sv_pg := sample_pg\<lparr>sha256 := (\<lambda>_. ''collision'')\<rparr>\<rparr> in
   serve sv sample_env ((sample_post ''alice'' 300)\<lparr>Header := Header (sample_post ''mallory'' 300)\<rparr>) sample_server =
   serve sv sample_env (sample_post ''alice'' 300) sample_server"
proof -
  let ?sv = "sample_service\<lparr>sv_pg := sample_pg\<lparr>sha256 := (\<lambda>_. ''collision'')\<rparr>\<rparr>"
  have "same_caller ?sv (sample_post ''alice'' 300) (Header (sample_post ''mallory'' 300))" by code_simp
  then show ?thesis unfolding Let_def by (rule token_only_through_hash)
qed

end
