(* ===== verification/Api_Outcomes.thy ===== *)
theory Api_Outcomes
  imports Authority
begin

text \<open>
  The outcomes of \<open>POST /transfers\<close>: how each reply is counted, what a refusal leaves behind, and
  the whole path from the JSON body to the store and back. Then the log endpoint.
\<close>

section \<open>One outcome per transfer request\<close>

text \<open>
  A reply other than 201: a server error is not counted, a conflict and the other refusals raise
  their label by one, and no paise are counted.
\<close>

definition tallied :: "server \<Rightarrow> server \<Rightarrow> int \<Rightarrow> bool" where
  "tallied s s' st \<longleftrightarrow>
     st \<in> set [400, 403, 404, 409, 422, 500] \<and>
     Transfers (s_metrics s') =
       (if st = 500 then Transfers (s_metrics s)
        else bump (Transfers (s_metrics s)) (if st = 409 then OutcomeConflict else OutcomeInvalid)) \<and>
     TransferAmount (s_metrics s') = TransferAmount (s_metrics s)"

definition same_tallies :: "server \<Rightarrow> server \<Rightarrow> bool" where
  "same_tallies s s1 \<longleftrightarrow>
     Transfers (s_metrics s1) = Transfers (s_metrics s) \<and> TransferAmount (s_metrics s1) = TransferAmount (s_metrics s)"

lemma tallies_frame [simp]:
  "same_tallies s s" "same_tallies s (log_at sv l c m as s1) = same_tallies s s1"
  "same_tallies s (elsewhere sv e k s1) = same_tallies s s1" "same_tallies s (s1\<lparr>s_db := d\<rparr>) = same_tallies s s1"
  "same_tallies s (fold (on_retry sv) rs s1) = same_tallies s s1"
  "same_tallies s (requested sv e r b s1) = same_tallies s s1"
  by (simp_all add: same_tallies_def elsewhere_def requested_def)

lemma reject_tallied:
  assumes "same_tallies s s1" and "status w = 0" and "st \<in> set [400, 403, 404, 422]"
    and "rejectTransferStatus sv r st code msg (s1, w) = (s', w')"
  shows "tallied s s' (status w')"
  using assms by (auto simp: tallied_def same_tallies_def)

lemma failed_tallied:
  assumes "same_tallies s s1" and "status w = 0" and "transfer_failed sv r b err (s1, w) = (s', w')"
  shows "tallied s s' (status w')" and "err = ErrConn \<Longrightarrow> status w' = 500"
  using assms
  by (auto simp: tallied_def same_tallies_def rejectTransfer_def split: if_splits)

lemma precheck_tallied:
  assumes "same_tallies s s1" and "status w = 0" and "precheck sv e user r b (s1, w) = Inr (s', w')"
  shows "tallied s s' (status w')"
  using assms
  by (auto simp: tallied_def same_tallies_def elsewhere_def Let_def split: sum.splits if_splits)

lemma precheck_tallies: "precheck sv e user r b (s1, w) = Inl s2 \<Longrightarrow> same_tallies s s2 = same_tallies s s1"
  by (auto simp: Let_def split: sum.splits if_splits)

text \<open>An answered transfer: its label, and the paise it adds to the counter.\<close>

definition outcome_of :: "TransferResult \<Rightarrow> string" where
  "outcome_of tr =
     (if Replay tr then OutcomeReplay
      else if Status (transfer tr) = StatusSucceeded then OutcomeSucceeded else OutcomeInsufficient)"

definition counted_amount :: "TransferResult \<Rightarrow> paise list" where
  "counted_amount tr =
     (if \<not> Replay tr \<and> Status (transfer tr) = StatusSucceeded then [AmountPaise (transfer tr)] else [])"

lemma done_tallied:
  assumes "same_tallies s s1" and "status w = 0" and "transfer_done sv r tr (s1, w) = (s', w')"
  shows "Transfers (s_metrics s') = bump (Transfers (s_metrics s)) (outcome_of tr)" and "status w' = 201"
    and "written w' = written w @ [TransferBody (transfer tr)]"
    and "TransferAmount (s_metrics s') = TransferAmount (s_metrics s) @ counted_amount tr"
  using assms
  by (auto simp: same_tallies_def Let_def outcome_of_def counted_amount_def rw.status_laws rw.body_laws
      split: if_splits)

lemma rejected_request:
  assumes "status w = 0" and "handleCreateTransfer sv e user r (s, w) = (s', w')"
    and "\<nexists>b s1. decode_transfer (Body r) = Inr b \<and> validate_transfer b = None \<and> precheck sv e user r b (s, w) = Inl s1"
  shows "tallied s s' (status w')"
proof (cases "decode_transfer (Body r)")
  case (Inl err)
  with assms(1,2) show ?thesis by (auto simp: tallied_def)
next
  case dec: (Inr b)
  show ?thesis
  proof (cases "validate_transfer b")
    case (Some cm)
    with dec assms(2) have "rejectTransferStatus sv r 422 (fst cm) (snd cm) (s, w) = (s', w')"
      by (auto simp: rejectTransfer_def split: prod.splits)
    from reject_tallied [OF tallies_frame(1) assms(1) _ this] show ?thesis by simp
  next
    case None
    with dec assms(3) obtain a where "precheck sv e user r b (s, w) = Inr a"
      by (cases "precheck sv e user r b (s, w)") blast+
    with dec None assms(2) have "precheck sv e user r b (s, w) = Inr (s', w')" by (simp del: precheck.simps)
    from precheck_tallied [OF tallies_frame(1) assms(1) this] show ?thesis .
  qed
qed

text \<open>The call of the store that a request makes, and the reply that follows it.\<close>

definition store_answer :: "service \<Rightarrow> reqenv \<Rightarrow> User \<Rightarrow> transferRequestBody \<Rightarrow> server \<Rightarrow> error + TransferResult" where
  "store_answer sv e user b s =
     fst (store_Transfer (sv_pg sv) (tx e) (replay_call e) (store_request user b)
            (store_run (sv_pg sv) (others e 1 @ others e 2 @ others e 3) (s_db s)))"

lemma rejected_db:
  assumes "handleCreateTransfer sv e user r (s, w) = (s', w')"
    and "\<nexists>b s1. decode_transfer (Body r) = Inr b \<and> validate_transfer b = None \<and> precheck sv e user r b (s, w) = Inl s1"
  shows "\<exists>ops \<in> {[], others e 1, others e 1 @ others e 2}. s_db s' = store_run (sv_pg sv) ops (s_db s)"
proof (cases "decode_transfer (Body r)")
  case (Inl err)
  with assms(1) show ?thesis by (auto simp: store_run_def)
next
  case dec: (Inr b)
  show ?thesis
  proof (cases "validate_transfer b")
    case (Some cm)
    with assms(1) dec transfer_replies_db(3) [of sv r "fst cm" "snd cm" s w] show ?thesis
      by (auto simp: store_run_def split: prod.splits)
  next
    case None
    with dec assms(2) obtain a where "precheck sv e user r b (s, w) = Inr a"
      by (cases "precheck sv e user r b (s, w)") blast+
    with dec None assms(1) have "precheck sv e user r b (s, w) = Inr (s', w')" by (simp del: precheck.simps)
    from precheck_db [OF this] show ?thesis by auto
  qed
qed

lemma handler_cases:
  assumes "status w = 0" and "handleCreateTransfer sv e user r (s, w) = (s', w')"
  obtains (rejected) "tallied s s' (status w')"
      "\<exists>ops \<in> {[], others e 1, others e 1 @ others e 2}. s_db s' = store_run (sv_pg sv) ops (s_db s)"
  | (failed) b err where "store_answer sv e user b s = Inl err" "tallied s s' (status w')" "err = ErrConn \<Longrightarrow> status w' = 500"
      "s_db s' = store_step (sv_pg sv) (OpTransfer (tx e) (replay_call e) (store_request user b))
         (store_run (sv_pg sv) (others e 1 @ others e 2 @ others e 3) (s_db s))"
  | (answered) b tr where "decode_transfer (Body r) = Inr b" "store_answer sv e user b s = Inr tr" "status w' = 201"
      "written w' = written w @ [TransferBody (transfer tr)]"
      "Transfers (s_metrics s') = bump (Transfers (s_metrics s)) (outcome_of tr)"
      "TransferAmount (s_metrics s') = TransferAmount (s_metrics s) @ counted_amount tr"
proof (cases "\<exists>b s1. decode_transfer (Body r) = Inr b \<and> validate_transfer b = None \<and> precheck sv e user r b (s, w) = Inl s1")
  case False
  then show ?thesis
    using rejected [OF rejected_request [OF assms False]] rejected_db [OF assms(2) False] by blast
next
  case True
  then obtain b s1 where p: "decode_transfer (Body r) = Inr b" "validate_transfer b = None" "precheck sv e user r b (s, w) = Inl s1"
    by blast
  let ?q = "requested sv e r b s1" and ?d = "store_run (sv_pg sv) (others e 1 @ others e 2 @ others e 3) (s_db s)"
  have q: "s_db ?q = ?d" using precheck_passed(1) [OF p(3)] by (simp add: store_run_append)
  obtain res d rs where c: "store_Transfer (sv_pg sv) (tx e) (replay_call e) (store_request user b) ?d = (res, d, rs)"
    by (metis prod_cases3)
  let ?s4 = "fold (on_retry sv) rs (?q\<lparr>s_db := d\<rparr>)"
  have s4: "same_tallies s ?s4" using precheck_tallies [OF p(3), of s] by simp
  have a: "after_call sv r b w ?q (res, d, rs) = (s', w')"
    using assms(2) unfolding handleCreateTransfer_call [OF p] q c .
  have ans: "store_answer sv e user b s = res" by (simp add: store_answer_def c del: One_nat_def)
  have db: "s_db s' = store_step (sv_pg sv) (OpTransfer (tx e) (replay_call e) (store_request user b)) ?d"
    using arg_cong [OF a, of "\<lambda>x. s_db (fst x)"] by (simp add: c del: One_nat_def)
  show ?thesis
  proof (cases res)
    case (Inl err)
    with a have "transfer_failed sv r b err (?s4, w) = (s', w')" by (simp add: after_call_def del: transfer_failed.simps)
    from failed [OF ans [unfolded Inl] failed_tallied [OF s4 assms(1) this] db] show ?thesis by simp
  next
    case (Inr tr)
    with a have "transfer_done sv r tr (?s4, w) = (s', w')" by (simp add: after_call_def del: transfer_done.simps)
    note t = done_tallied [OF s4 assms(1) this]
    from answered [OF p(1) ans [unfolded Inr] t(2,3,1,4)] show ?thesis .
  qed
qed

text \<open>
  C15: Every transfer request has one outcome, and it is the one that the store gave. A reply 201
  carries the document of the store's answer for the decoded body and raises exactly one label of
  the transfer counter by one: replay when the store marks a replay, else succeeded or declined by
  its status; the counter of moved paise gains its amount only for a fresh success. Any other
  reply is a 500, which raises no label, a 409, which raises the conflict label, or a 400, 403,
  404 or 422, which raises the invalid label; none of them counts paise.
\<close>

theorem one_outcome_per_transfer:
  assumes "status w = 0" and "handleCreateTransfer sv e user r (s, w) = (s', w')"
  shows "if status w' = 201
     then \<exists>b tr. decode_transfer (Body r) = Inr b \<and>
       fst (store_Transfer (sv_pg sv) (tx e) (replay_call e) (store_request user b)
              (store_run (sv_pg sv) (others e 1 @ others e 2 @ others e 3) (s_db s))) = Inr tr \<and>
       written w' = written w @ [TransferBody (transfer tr)] \<and>
       Transfers (s_metrics s') =
         bump (Transfers (s_metrics s))
           (if Replay tr then OutcomeReplay
            else if Status (transfer tr) = StatusSucceeded then OutcomeSucceeded else OutcomeInsufficient) \<and>
       TransferAmount (s_metrics s') = TransferAmount (s_metrics s) @
         (if \<not> Replay tr \<and> Status (transfer tr) = StatusSucceeded then [AmountPaise (transfer tr)] else [])
     else status w' \<in> {400, 403, 404, 409, 422, 500} \<and>
       Transfers (s_metrics s') =
         (if status w' = 500 then Transfers (s_metrics s)
          else bump (Transfers (s_metrics s)) (if status w' = 409 then OutcomeConflict else OutcomeInvalid)) \<and>
       TransferAmount (s_metrics s') = TransferAmount (s_metrics s)"
  using assms
proof (cases rule: handler_cases)
  case (answered b tr)
  then show ?thesis
    by (simp add: store_answer_def outcome_of_def counted_amount_def)
qed (auto simp: tallied_def)

lemma sample_handled:
  obtains s' w' where "handleCreateTransfer sample_service sample_calls \<lparr>User_ID = alice\<rparr> (sample_post ''alice'' 300)
      (sample_server, new_recorder new_writer) = (s', w')" "status w' = 201"
proof -
  let ?e = sample_calls and ?u = "\<lparr>User_ID = alice\<rparr>" and ?r = "sample_post ''alice'' 300" and ?w = "new_recorder new_writer"
  note x = sample_exchange [unfolded sample_parts]
  have pre: "precheck sample_service ?e ?u ?r (sample_body 300) (sample_server, ?w) = Inl sample_server"
    using x(5,6) by (simp add: alone sample_parts Let_def)
  obtain s' w' where a: "after_call sample_service ?r (sample_body 300) ?w (requested sample_service ?e ?r (sample_body 300) sample_server)
      (Inr \<lparr>transfer = answered (sample_req 300) (sample_row 300 True), Replay = False\<rparr>, post (sample_row 300 True) sample_db, []) = (s', w')"
    by fastforce
  have h: "handleCreateTransfer sample_service ?e ?u ?r (sample_server, ?w) = (s', w')"
    unfolding handleCreateTransfer_call [OF sample_decode x(4) pre] a [symmetric]
    using sample_call by (simp add: sample_parts store_run_def)
  have w: "status ?w = 0" by (simp add: new_recorder_def)
  from a have "status w' = 201"
    using done_tallied(2) [OF tallies_frame(1) w] by (auto simp: after_call_def simp del: transfer_done.simps)
  with h that show ?thesis by blast
qed

theorem one_outcome_per_transfer_witness:
  "\<exists>s' w'. handleCreateTransfer sample_service sample_calls \<lparr>User_ID = alice\<rparr> (sample_post ''alice'' 300)
      (sample_server, new_recorder new_writer) = (s', w') \<and> status w' = 201 \<and>
     Transfers (s_metrics s') = bump (Transfers (s_metrics sample_server)) OutcomeSucceeded \<and>
     TransferAmount (s_metrics s') = TransferAmount (s_metrics sample_server) @ [300]"
proof -
  obtain s' w' where h: "handleCreateTransfer sample_service sample_calls \<lparr>User_ID = alice\<rparr> (sample_post ''alice'' 300)
      (sample_server, new_recorder new_writer) = (s', w')" "status w' = 201" by (rule sample_handled)
  have w: "status (new_recorder new_writer) = 0" by (simp add: new_recorder_def)
  have "\<And>b. decode_transfer (Body (sample_post ''alice'' 300)) = Inr b \<Longrightarrow> b = sample_body 300" using sample_decode by simp
  with one_outcome_per_transfer [OF w h(1)] h sample_call show ?thesis
    by (auto simp: sample_parts store_run_def answered_def transfer_of_def StatusSucceeded_def
        simp del: handleCreateTransfer.simps)
qed

section \<open>A refusal leaves no trace in the database\<close>

text \<open>A user row that a token adds.\<close>

lemma UpsertUser_adds:
  assumes "UpsertUser pg c token d = (r, d')"
  shows "users d' = users d \<or> (\<exists>u. users d' = users d @ [u] \<and> u_token_hash u = TokenHash pg token)"
proof -
  from assms obtain x where "autocommit c (upsert_user_sql (TokenHash pg token) (q_uuid c) (q_now c) d) d = (x, d')"
    by (auto simp: UpsertUser_def split: prod.splits sum.splits)
  from autocommit_db [OF this] show ?thesis
    by (auto simp: upsert_user_sql_def insert_user_Inr split: option.splits sum.splits)
qed

lemma refused_handler:
  assumes "store_ok (s_db s)" and "status w = 0" and "handleCreateTransfer sv e user r (s, w) = (s', w')"
    and "status w' \<noteq> 201" and "status w' \<noteq> 500"
  shows "\<exists>j. s_db s' = store_run (sv_pg sv) (take j (others e 1 @ others e 2 @ others e 3)) (s_db s)"
  using assms(2,3)
proof (cases rule: handler_cases)
  case rejected
  then obtain ops where o: "ops \<in> {[], others e 1, others e 1 @ others e 2}" "s_db s' = store_run (sv_pg sv) ops (s_db s)" by blast
  from o(1) obtain j where "ops = take j (others e 1 @ others e 2 @ others e 3)"
    by (auto intro: that [of 0] that [of "length (others e 1)"] that [of "length (others e 1) + length (others e 2)"])
  with o(2) show ?thesis by auto
next
  case (failed b err)
  let ?ops = "others e 1 @ others e 2 @ others e 3"
  obtain d rs where c: "store_Transfer (sv_pg sv) (tx e) (replay_call e) (store_request user b) (store_run (sv_pg sv) ?ops (s_db s)) = (Inl err, d, rs)"
    using failed(1) by (metis store_answer_def prod.collapse)
  have "err \<noteq> ErrConn" using failed(3) assms(5) by blast
  from store_Transfer_error_db [OF c this] failed(4) c show ?thesis by (intro exI [of _ "length ?ops"]) simp
qed (use assms(4) in simp)

lemma refused_dispatch:
  assumes "store_ok (s_db s)" and "status w = 0" and "dispatch sv h RCreateTransfer r (s, w) = (s', w')"
    and "status w' \<noteq> 201" and "status w' \<noteq> 500"
  shows "\<exists>k. s_db s' = store_run (sv_pg sv)
    (take k (case bearerToken r of None \<Rightarrow> [] | Some token \<Rightarrow> calls_before (calls h) token)) (s_db s)"
proof (cases "bearerToken r")
  case None
  with assms(3) have "s' = s" by simp
  with None show ?thesis by (simp add: store_run_def)
next
  case (Some token)
  let ?pg = "sv_pg sv" and ?e = "calls h"
  let ?d0 = "store_run ?pg (others ?e 0) (s_db s)"
  obtain res d1 where u: "UpsertUser ?pg (auth_call ?e) token ?d0 = (res, d1)" by fastforce
  have upto: "store_run ?pg (take (length (others ?e 0) + Suc j) (calls_before ?e token)) (s_db s) =
      store_run ?pg (take j (others ?e 1 @ others ?e 2 @ others ?e 3)) d1" for j
    using u by (simp only: calls_before_def take_into) (simp add: store_run_append store_run_Cons)
  show ?thesis
  proof (cases res)
    case (Inl err)
    with assms(3) Some u have "s_db s' = d1" by (auto simp: Let_def)
    with Some upto [of 0] show ?thesis by (intro exI [of _ "length (others ?e 0) + Suc 0"]) (simp add: store_run_def)
  next
    case (Inr user)
    have "handleCreateTransfer sv ?e user (authed r) ((elsewhere sv ?e 0 s)\<lparr>s_db := d1\<rparr>, w) = (s', w')"
      using assms(3) Some u Inr by (simp add: Let_def authed_def del: handleCreateTransfer.simps)
    from refused_handler [OF _ assms(2) this assms(4,5)] UpsertUser_store_ok [OF store_run_ok [OF assms(1)] u]
    obtain j where "s_db s' = store_run ?pg (take j (others ?e 1 @ others ?e 2 @ others ?e 3)) d1" by auto
    with Some upto [of j] show ?thesis by (intro exI [of _ "length (others ?e 0) + Suc j"]) simp
  qed
qed

lemma mux_post_transfers: "mux_find ''POST'' ''/transfers'' = Matched ''POST /transfers'' '''' RCreateTransfer"
  by code_simp

lemma serve_transfer:
  assumes "Method r = ''POST''" and "Path r = ''/transfers''" and "serve sv h r s = (s', out)"
  obtains s5 w5 where "dispatch sv h RCreateTransfer (r\<lparr>Context := WithCorrelationID (Context r) (request_id h r),
        Pattern := ''POST /transfers'', PathID := ''''\<rparr>)
      (add_in_flight 1 s, new_recorder (http_Set correlationHeader (request_id h r) new_writer)) = (s5, w5)"
    "out = ResponseWriter w5" "s_db s' = s_db s5" "w_status out = status w5" "w_body out = written w5"
proof -
  let ?w = "new_recorder (http_Set correlationHeader (request_id h r) new_writer)"
  let ?r = "r\<lparr>Context := WithCorrelationID (Context r) (request_id h r), Pattern := ''POST /transfers'', PathID := ''''\<rparr>"
  obtain s5 w5 where d: "dispatch sv h RCreateTransfer ?r (add_in_flight 1 s, ?w) = (s5, w5)" by fastforce
  have o: "out = ResponseWriter w5" "s_db s' = s_db s5"
    using assms(3) d by (auto simp: serve_def observe_def mux_ServeHTTP_def assms(1,2) mux_post_transfers recovered_def Let_def
        simp del: dispatch.simps)
  have "faithful w5" using dispatch_replies [of ?w sv h RCreateTransfer ?r "add_in_flight 1 s"] d
    by (simp add: replies_def del: dispatch.simps)
  with d o that show ?thesis by (simp add: faithful_def del: dispatch.simps)
qed

text \<open>
  C9: A refused transfer moves nothing. When a \<open>POST /transfers\<close> is answered neither 201 nor 500,
  whatever other requests did meanwhile, the database is the one that their calls and the
  registration of the caller's token produce: the request has added no transfer, so it consumed
  no idempotency key, and moved no money. When no other request interferes, wallets, transfers,
  mints and ledger are untouched, and at most one row of users was added, for the presented token.
\<close>

theorem refused_transfer_changes_nothing:
  assumes "store_ok (s_db s)" and "Method r = ''POST''" and "Path r = ''/transfers''" and "serve sv h r s = (s', out)"
    and "w_status out \<noteq> 201" and "w_status out \<noteq> 500"
  shows "(\<exists>k. s_db s' = store_run (sv_pg sv)
       (take k (case bearerToken r of None \<Rightarrow> [] | Some token \<Rightarrow> calls_before (calls h) token)) (s_db s)) \<and>
    (others (calls h) = (\<lambda>_. []) \<longrightarrow>
       wallets (s_db s') = wallets (s_db s) \<and> transfers (s_db s') = transfers (s_db s) \<and>
       mints (s_db s') = mints (s_db s) \<and> ledger_entries (s_db s') = ledger_entries (s_db s) \<and>
       (users (s_db s') = users (s_db s) \<or>
        (\<exists>token u. bearerToken r = Some token \<and> users (s_db s') = users (s_db s) @ [u] \<and>
           u_token_hash u = TokenHash (sv_pg sv) token)))"
proof -
  let ?pg = "sv_pg sv" and ?e = "calls h"
  let ?ops = "case bearerToken r of None \<Rightarrow> [] | Some token \<Rightarrow> calls_before ?e token"
  from serve_transfer [OF assms(2-4)] obtain s5 w5 where d:
    "dispatch sv h RCreateTransfer (r\<lparr>Context := WithCorrelationID (Context r) (request_id h r),
        Pattern := ''POST /transfers'', PathID := ''''\<rparr>)
      (add_in_flight 1 s, new_recorder (http_Set correlationHeader (request_id h r) new_writer)) = (s5, w5)"
    and o: "s_db s' = s_db s5" "w_status out = status w5" by metis
  have calls: "\<exists>k. s_db s' = store_run ?pg (take k ?ops) (s_db s)"
    using refused_dispatch [OF _ _ d] assms(1,5,6) o by (simp add: new_recorder_def)
  moreover have "wallets (s_db s') = wallets (s_db s) \<and> transfers (s_db s') = transfers (s_db s) \<and>
      mints (s_db s') = mints (s_db s) \<and> ledger_entries (s_db s') = ledger_entries (s_db s) \<and>
      (users (s_db s') = users (s_db s) \<or>
       (\<exists>token u. bearerToken r = Some token \<and> users (s_db s') = users (s_db s) @ [u] \<and>
          u_token_hash u = TokenHash ?pg token))" if quiet_env: "others ?e = (\<lambda>_. [])"
  proof -
    from calls consider "s_db s' = s_db s"
      | token where "bearerToken r = Some token" "s_db s' = snd (UpsertUser ?pg (auth_call ?e) token (s_db s))"
      by (auto simp: calls_before_def quiet_env store_run_def take_Cons' split: option.splits if_splits)
    then show ?thesis
    proof cases
      case (2 token)
      from UpsertUser_tables [OF surjective_pairing, of ?pg "auth_call ?e" token "s_db s"]
        UpsertUser_adds [OF surjective_pairing, of ?pg "auth_call ?e" token "s_db s"] 2 show ?thesis by auto
    qed simp
  qed
  ultimately show ?thesis by blast
qed

theorem refused_transfer_changes_nothing_witness:
  "let s' = fst (serve sample_service sample_env ((sample_post ''carol'' 300)\<lparr>Body := ''{}''\<rparr>) sample_server) in
   transfers (s_db s') = [] \<and> wallets (s_db s') = wallets sample_db \<and> length (users (s_db s')) \<le> 3"
proof -
  let ?r = "(sample_post ''carol'' 300)\<lparr>Body := ''{}''\<rparr>"
  obtain s' out where o: "serve sample_service sample_env ?r sample_server = (s', out)" by fastforce
  have m: "Method ?r = ''POST''" "Path ?r = ''/transfers''" "store_ok (s_db sample_server)"
    by (simp_all add: sample_post_def sample_server_def)
  have "w_status (snd (serve sample_service sample_env ?r sample_server)) = 422" by code_simp
  then have st: "w_status out \<noteq> 201" "w_status out \<noteq> 500" using o by simp_all
  have "length (users sample_db) = 2" "transfers sample_db = []" by (simp_all add: sample_db_def)
  with refused_transfer_changes_nothing [OF m(3,1,2) o st] o show ?thesis by (auto simp: sample_parts Let_def)
qed

section \<open>From the body to the store and back\<close>

lemma done_reply:
  assumes "status w = 0"
  shows "w_header (ResponseWriter (snd (transfer_done sv r tr (s, w)))) ''Idempotent-Replay'' =
      (if Replay tr then Some ''true'' else w_header (ResponseWriter w) ''Idempotent-Replay'')"
    and "faithful w \<Longrightarrow> faithful (snd (transfer_done sv r tr (s, w)))"
    and "written (snd (transfer_done sv r tr (s, w))) = written w @ [TransferBody (transfer tr)]"
    and "status (snd (transfer_done sv r tr (s, w))) = 201"
  using assms by (simp_all add: Let_def rw.header_laws rw.body_laws rw.status_laws)

text \<open>
  C8: End to end: a \<open>POST /transfers\<close> of the owner, undisturbed by others, is the call of
  \<open>Transfer\<close> with the decoded body: the database afterwards is the one that the store left, and
  the reply is 201 with the stored document, succeeded or declined, marked as a replay exactly
  when the store says so.
\<close>

theorem transfer_end_to_end:
  assumes "Method r = ''POST''" and "Path r = ''/transfers''" and "bearerToken r = Some token"
    and "others (calls h) = (\<lambda>_. [])"
    and "UpsertUser (sv_pg sv) (auth_call (calls h)) token (s_db s) = (Inr user, d1)"
    and "decode_transfer (Body r) = Inr b" and "validate_transfer b = None"
    and "GetWallet (sv_pg sv) (call1 (calls h)) (b_From b) d1 = Inr src" and "UserID src = User_ID user"
    and "GetWallet (sv_pg sv) (call2 (calls h)) (b_To b) d1 = Inr dst"
    and "store_Transfer (sv_pg sv) (tx (calls h)) (replay_call (calls h)) (store_request user b) d1 = (Inr tr, d2, rs)"
    and "serve sv h r s = (s', out)"
  shows "s_db s' = d2 \<and> w_status out = 201 \<and> w_body out = [TransferBody (transfer tr)] \<and>
    (w_header out ''Idempotent-Replay'' = Some ''true'' \<longleftrightarrow> Replay tr)"
proof -
  let ?i = "request_id h r" and ?e = "calls h"
  let ?w = "new_recorder (http_Set correlationHeader ?i new_writer)"
  let ?r = "r\<lparr>Context := WithCorrelationID (Context r) ?i, Pattern := ''POST /transfers'', PathID := ''''\<rparr>"
  let ?s = "(requested sv ?e (authed ?r) b ((add_in_flight 1 s)\<lparr>s_db := d1\<rparr>))\<lparr>s_db := d2\<rparr>"
  obtain s5 w5 where t: "transfer_done sv (authed ?r) tr (fold (on_retry sv) rs ?s, ?w) = (s5, w5)" by fastforce
  have w: "status ?w = 0" "faithful ?w" "written ?w = []" "w_header (ResponseWriter ?w) ''Idempotent-Replay'' = None"
    by (simp_all add: new_recorder_def http_Set_def new_writer_def correlationHeader_def faithful_def)
  have "dispatch sv h RCreateTransfer ?r (add_in_flight 1 s, ?w) =
      after_call sv (authed ?r) b ?w (requested sv ?e (authed ?r) b ((add_in_flight 1 s)\<lparr>s_db := d1\<rparr>))
        (store_Transfer (sv_pg sv) (tx ?e) (replay_call ?e) (store_request user b) d1)"
    using assms(3,5,6) by (intro dispatch_transfer [OF assms(4) _ _ _ assms(7-10)]) simp_all
  then have "dispatch sv h RCreateTransfer ?r (add_in_flight 1 s, ?w) = (s5, w5)"
    unfolding assms(11) by (simp add: after_call_def t del: transfer_done.simps dispatch.simps)
  then have out: "out = ResponseWriter w5" and s': "s_db s' = s_db s5"
    using serve_transfer [OF assms(1,2,12)] by (metis prod.inject)+
  have "s_db s5 = d2" using transfer_replies_db(2) [of sv "authed ?r" tr "fold (on_retry sv) rs ?s" ?w] t
    by (simp del: transfer_done.simps)
  with out s' done_reply [OF w(1), of sv "authed ?r" tr "fold (on_retry sv) rs ?s"] t w show ?thesis
    by (simp add: faithful_def del: transfer_done.simps)
qed

theorem transfer_end_to_end_witness:
  "w_status (snd (serve sample_service sample_env (sample_post ''alice'' 300) sample_server)) = 201 \<and>
   s_db (fst (serve sample_service sample_env (sample_post ''alice'' 300) sample_server)) = post (sample_row 300 True) sample_db"
proof -
  let ?r = "sample_post ''alice'' 300"
  obtain s' out where o: "serve sample_service sample_env ?r sample_server = (s', out)" by fastforce
  have m: "Method ?r = ''POST''" "Path ?r = ''/transfers''" by (simp_all add: sample_post_def)
  from transfer_end_to_end [OF m sample_exchange(2,1,3) sample_decode sample_exchange(4,5) _ sample_exchange(6) sample_call o] o
  show ?thesis by simp
qed

section \<open>The audit endpoint and the log endpoint\<close>

lemma run_ring_size:
  "size_of (s_ring (fold (api_step sv) qs (new_server sz))) = (if sz \<le> 0 then 1 else nat sz)"
proof (induction qs rule: rev_induct)
  case Nil
  then show ?case by (simp add: new_server_def NewRing_def Let_def)
next
  case (snoc q qs)
  let ?s = "fold (api_step sv) qs (new_server sz)"
  obtain s' out where o: "serve sv (fst q) (snd q) ?s = (s', out)" by fastforce
  have "ring_ok (s_ring ?s)" using api.run_init_ok [of sv qs sz] by (simp add: server_ok_def log_mirrored_def)
  with wh.observe_effect(2) [OF o [unfolded serve_def]] have "size_of (s_ring s') = size_of (s_ring ?s)"
    by (auto simp: logs_more_def rl.pushes_ok)
  moreover have "api_step sv q ?s = s'" using o by (simp add: api_step_def)
  ultimately show ?case using snoc by simp
qed

lemma recent_count_bounds: "1 \<le> recent_count r \<and> recent_count r \<le> 5000"
  by (simp add: recent_count_def Let_def split: option.split)

lemma mirrored_snapshot:
  assumes "log_mirrored sv s" and "0 < n"
  shows "Snapshot n (s_ring s) = lastn (min (nat n) (size_of (s_ring s))) (map (slog_line sv) (s_log s))"
proof -
  from assms have m: "ring_ok (s_ring s)" "ring_lines (s_ring s) = lastn (size_of (s_ring s)) (map (slog_line sv) (s_log s))"
    by (simp_all add: log_mirrored_def)
  have "line_count (s_ring s) = min (size_of (s_ring s)) (length (s_log s))"
    using length_ring_lines [OF m(1)] by (simp add: m(2))
  then show ?thesis using assms(2) by (auto simp: Snapshot_lines [OF m(1)] m(2) lastn_def min_def)
qed

text \<open>
  C29: \<open>GET /logs/recent\<close> serves, after any run of the service, exactly the valid ones among the
  most recent lines that the process logged: as many as were asked for, between 1 and 5000 and
  200 by default, bounded by the size of the ring, oldest first, with their count.
\<close>

theorem recent_logs_served:
  "let s = api_run sv qs (new_server sz);
       cap = (if sz \<le> 0 then 1 else nat sz);
       recent = lastn (min (nat (recent_count r)) cap) (map (slog_line sv) (s_log s));
       out = filter Valid recent
   in 1 \<le> recent_count r \<and> recent_count r \<le> 5000 \<and>
      handleLogsRecent s r w = writeJSON 200 (LogsBody (length out) (Subscribers (s_ring s)) out) w"
proof -
  let ?s = "api_run sv qs (new_server sz)"
  have "log_mirrored sv ?s" using api.run_init_ok [of sv qs sz] by (simp add: server_ok_def api_run_def)
  from mirrored_snapshot [OF this, of "recent_count r"] run_ring_size [of sv qs sz] recent_count_bounds [of r]
  show ?thesis by (simp add: handleLogsRecent_def Let_def api_run_def)
qed

end
