(* ===== verification/Service.thy ===== *)
theory Service
  imports Api_Outcomes Store_Props
begin

text \<open>
  The process: \<open>cmd/wallet/main.go\<close> and \<open>internal/store/migrate.go\<close>. The health probe, the
  connection loop with its deadline, the migration, the sampler of the invariants, and \<open>run\<close>,
  which puts them together. Clocks, pings, signals and the HTTP listener are parameters. Times are
  in nanoseconds.
\<close>

section \<open>The health probe\<close>

datatype probe_error = ProbeFailed error | HealthzReturned int

definition probe :: "(string \<Rightarrow> string) \<Rightarrow> (string \<Rightarrow> error + int) \<Rightarrow> probe_error option" where
  "probe getenv http_get =
     (let port = (if getenv ''PORT'' = '''' then ''8080'' else getenv ''PORT'') in
      case http_get (''http://127.0.0.1:'' @ port @ ''/healthz'') of
        Inl err \<Rightarrow> Some (ProbeFailed err)
      | Inr st \<Rightarrow> if st \<noteq> 200 then Some (HealthzReturned st) else None)"

section \<open>Connecting\<close>

record PoolConfig =
  MaxConns :: int
  MinConns :: int
  MaxConnLifetime :: int
  MaxConnIdleTime :: int
  HealthCheckPeriod :: int

definition pool_config :: "Config \<Rightarrow> PoolConfig" where
  "pool_config cfg =
     \<lparr>MaxConns = MaxDBConns cfg, MinConns = MinDBConns cfg, MaxConnLifetime = 30 * 60 * 1000000000,
      MaxConnIdleTime = 5 * 60 * 1000000000, HealthCheckPeriod = 30 * 1000000000\<rparr>"

text \<open>
  One attempt: the result of the ping, the clock and \<open>ctx.Err()\<close> when the deadline is tested, and
  whether the context ends during the wait.
\<close>

record attempt =
  at_ping :: "error option"
  at_now :: int
  at_ctx :: bool
  at_cancelled :: bool

datatype connect_result = Connected PoolConfig | ConnectFailed error

text \<open>
  The loop with fuel; \<open>None\<close> means that the fuel ran out. \<open>k\<close> is \<open>attempt\<close>.
\<close>

fun connect_loop ::
  "service \<Rightarrow> PoolConfig \<Rightarrow> (nat \<Rightarrow> attempt) \<Rightarrow> int \<Rightarrow> nat \<Rightarrow> nat \<Rightarrow> server \<Rightarrow> (connect_result \<times> server) option" where
  "connect_loop sv pc atts deadline 0 k s = None"
| "connect_loop sv pc atts deadline (Suc n) k s =
     (case at_ping (atts k) of
        None \<Rightarrow>
          Some (Connected pc, log_at sv LevelInfo None ''database connected'' [(''event'', VString ''db_connected'')] s)
      | Some err \<Rightarrow>
          if at_now (atts k) > deadline \<or> at_ctx (atts k) then Some (ConnectFailed err, s)
          else
            (let s1 = log_at sv LevelWarn None ''database not ready, retrying''
                   [(''event'', VString ''db_connect_retry''), (''attempt'', VInt (int k)), (''error'', VError err)] s
             in if at_cancelled (atts k) then Some (ConnectFailed ErrCtx, s1)
                else connect_loop sv pc atts deadline n (Suc k) s1))"

text \<open>The fuel of \<open>connectDB\<close>: with two seconds between attempts the deadline of a minute leaves 32.\<close>

definition max_connects :: nat where
  "max_connects = 32"

record connectenv =
  parse_dsn :: "error option"
  new_pool :: "error option"
  began_at :: int
  attempts :: "nat \<Rightarrow> attempt"

definition connectDB :: "service \<Rightarrow> Config \<Rightarrow> connectenv \<Rightarrow> server \<Rightarrow> (connect_result \<times> server) option" where
  "connectDB sv cfg c s =
     (case parse_dsn c of
        Some err \<Rightarrow> Some (ConnectFailed err, s)
      | None \<Rightarrow>
          (case new_pool c of
             Some err \<Rightarrow> Some (ConnectFailed err, s)
           | None \<Rightarrow>
               connect_loop sv (pool_config cfg) (attempts c) (began_at c + 60 * 1000000000) max_connects 1 s))"

section \<open>Migration\<close>

text \<open>
  The schema script creates what does not exist, so on a database with the tables it changes
  nothing; \<open>None\<close> is a database without them.
\<close>

record migrateenv =
  mig_begin :: "error option"
  mig_exec :: "error option"
  mig_commit :: commit_outcome

definition schema_script :: "db option \<Rightarrow> db option" where
  "schema_script t = (case t of None \<Rightarrow> Some empty_db | Some d \<Rightarrow> Some d)"

definition Migrate :: "migrateenv \<Rightarrow> db option \<Rightarrow> error option \<times> db option" where
  "Migrate m t =
     (case mig_begin m of
        Some err \<Rightarrow> (Some err, t)
      | None \<Rightarrow>
          (case mig_exec m of
             Some err \<Rightarrow> (Some err, t)
           | None \<Rightarrow>
               (case mig_commit m of
                  CommitOk \<Rightarrow> (None, schema_script t)
                | CommitAborted f \<Rightarrow> (Some (fault_error f), t)
                | CommitUnknown applied \<Rightarrow> (Some ErrConn, if applied then schema_script t else t))))"

section \<open>The sampler\<close>

text \<open>What the select receives: the end of the context, or a tick, after store calls of others.\<close>

datatype sample_event = SampleDone | SampleTick "store_op list" callenv

definition violation_attrs :: "Invariants \<Rightarrow> (string \<times> attr_value) list" where
  "violation_attrs i =
     [(''event'', VString ''invariant_violation''), (''conservation'', VBool (Conservation i)),
      (''no_overdraft'', VBool (NoOverdraft i)), (''total_balance_paise'', VInt (TotalBalancePaise i)),
      (''total_minted_paise'', VInt (TotalMintedPaise i)), (''ledger_sum_paise'', VInt (LedgerSumPaise i)),
      (''negative_balance_wallets'', VInt (NegativeBalances i))]"

definition sample_tick :: "service \<Rightarrow> callenv \<Rightarrow> server \<Rightarrow> server" where
  "sample_tick sv c s =
     (case CheckInvariants c (s_db s) of
        Inl err \<Rightarrow> s
      | Inr i \<Rightarrow>
          (let s1 = s\<lparr>s_metrics := (s_metrics s)\<lparr>TotalBalance := TotalBalancePaise i, LedgerSum := LedgerSumPaise i\<rparr>\<rparr>
           in if AllHold i then s1 else log_at sv LevelError None ''INVARIANT VIOLATION'' (violation_attrs i) s1))"

fun sample_loop :: "service \<Rightarrow> sample_event list \<Rightarrow> server \<Rightarrow> server" where
  "sample_loop sv [] s = s"
| "sample_loop sv (SampleDone # es) s = s"
| "sample_loop sv (SampleTick ops c # es) s =
     sample_loop sv es (sample_tick sv c (s\<lparr>s_db := store_run (sv_pg sv) ops (s_db s)\<rparr>))"

definition sampleInvariants :: "service \<Rightarrow> int \<Rightarrow> sample_event list \<Rightarrow> server \<Rightarrow> server" where
  "sampleInvariants sv every es s = (if every \<le> 0 then s else sample_loop sv es s)"

section \<open>The process\<close>

datatype exit_cause = ConfigError config_error | StartError error | ListenError error | ShutdownError error | OutOfFuel










text \<open>\<open>main\<close>: the exit code.\<close>

definition main_exit :: "bool \<Rightarrow> probe_error option \<Rightarrow> exit_cause option \<Rightarrow> int" where
  "main_exit healthcheck probed ended =
     (if healthcheck then (if probed \<noteq> None then 1 else 0) else (if ended \<noteq> None then 1 else 0))"

section \<open>Connecting ends\<close>

text \<open>The clock at attempt \<open>k\<close>, when every wait takes at least two seconds.\<close>

lemma attempts_clock:
  assumes "began \<le> at_now (atts 1)" and "\<And>k. at_now (atts k) + 2000000000 \<le> at_now (atts (Suc k))"
  shows "began + 2000000000 * int k \<le> at_now (atts (Suc k))"
proof (induction k)
  case 0
  then show ?case using assms(1) by simp
next
  case (Suc k)
  then show ?case using assms(2) [of "Suc k"] by simp
qed

lemma connect_loop_ends:
  assumes "j < n" and "at_ping (atts (k + j)) = None \<or> at_now (atts (k + j)) > deadline"
  shows "\<exists>res. connect_loop sv pc atts deadline n k s = Some res"
  using assms
proof (induction n arbitrary: j k s)
  case 0
  then show ?case by simp
next
  case (Suc n)
  show ?case
  proof (cases j)
    case 0
    with Suc.prems show ?thesis by (auto split: option.split)
  next
    case (Suc i)
    with Suc.IH [of i "Suc k"] Suc.prems show ?thesis by (auto simp: Let_def split: option.split)
  qed
qed

text \<open>
  The reason for a result at attempt \<open>m\<close>: a ping that succeeded; the deadline or the context after
  a ping that failed; or the end of the context during a wait.
\<close>

definition connect_reason :: "PoolConfig \<Rightarrow> (nat \<Rightarrow> attempt) \<Rightarrow> int \<Rightarrow> connect_result \<Rightarrow> nat \<Rightarrow> bool" where
  "connect_reason pc atts deadline res m =
     (case res of
        Connected pc' \<Rightarrow> pc' = pc \<and> at_ping (atts m) = None
      | ConnectFailed err \<Rightarrow>
          at_ping (atts m) = Some err \<and> (at_now (atts m) > deadline \<or> at_ctx (atts m)) \<or>
          err = ErrCtx \<and> at_cancelled (atts m))"

lemma connect_loop_result:
  assumes "connect_loop sv pc atts deadline n k s = Some (res, s')"
  shows "\<exists>m \<ge> k. m < k + n \<and> connect_reason pc atts deadline res m"
  using assms
proof (induction n arbitrary: k s)
  case 0
  then show ?case by simp
next
  case (Suc n)
  show ?case
  proof (cases "at_ping (atts k)")
    case None
    with Suc.prems show ?thesis by (intro exI [of _ k]) (auto simp: connect_reason_def)
  next
    case (Some err)
    consider "at_now (atts k) > deadline \<or> at_ctx (atts k)"
      | "\<not> (at_now (atts k) > deadline \<or> at_ctx (atts k))" "at_cancelled (atts k)"
      | "\<not> (at_now (atts k) > deadline \<or> at_ctx (atts k))" "\<not> at_cancelled (atts k)" by blast
    then show ?thesis
    proof cases
      case 3
      with Some Suc.prems obtain s1 where "connect_loop sv pc atts deadline n (Suc k) s1 = Some (res, s')"
        by (auto simp: Let_def)
      from Suc.IH [OF this] obtain m where "Suc k \<le> m" "m < Suc k + n" "connect_reason pc atts deadline res m" by blast
      then show ?thesis by (intro exI [of _ m]) simp
    qed (use Some Suc.prems in \<open>intro exI [of _ k], auto simp: Let_def connect_reason_def\<close>)
  qed
qed

text \<open>
  C34: \<open>connectDB\<close> returns: when the clock advances by the two seconds of every wait, the loop ends
  within 32 attempts whatever the pings do. It returns a pool with the configured sizes only after
  a ping that succeeded, and an error only when the address is bad, the minute is over or the
  context ended.
\<close>

theorem connect_terminates:
  assumes "began_at c \<le> at_now (attempts c 1)"
    and "\<And>k. at_now (attempts c k) + 2000000000 \<le> at_now (attempts c (Suc k))"
  shows "\<exists>res s'. connectDB sv cfg c s = Some (res, s') \<and>
    ((\<exists>err. res = ConnectFailed err \<and> (parse_dsn c = Some err \<or> new_pool c = Some err)) \<or>
     (\<exists>m \<in> {1..32}. connect_reason (pool_config cfg) (attempts c) (began_at c + 60000000000) res m))"
proof (cases "parse_dsn c = None \<and> new_pool c = None")
  case True
  let ?dl = "began_at c + 60000000000"
  have "at_now (attempts c (1 + 31)) > ?dl" using attempts_clock [of "began_at c" "attempts c" 31] assms by simp
  with connect_loop_ends [of 31 32 "attempts c" 1 ?dl sv "pool_config cfg" s] obtain res s' where
    l: "connect_loop sv (pool_config cfg) (attempts c) ?dl 32 1 s = Some (res, s')" by fastforce
  from connect_loop_result [OF l] obtain m where m: "1 \<le> m" "m < 1 + 32"
    "connect_reason (pool_config cfg) (attempts c) ?dl res m" by blast
  have "m \<in> {1..32}" using m(1,2) by simp
  moreover have "connectDB sv cfg c s = Some (res, s')" using True l by (simp add: connectDB_def max_connects_def)
  ultimately show ?thesis using m(3) by blast
next
  case False
  then show ?thesis by (cases "parse_dsn c"; cases "new_pool c") (auto simp: connectDB_def)
qed

definition sample_connect :: connectenv where
  "sample_connect =
     \<lparr>parse_dsn = None, new_pool = None, began_at = 0,
      attempts = (\<lambda>k. \<lparr>at_ping = Some ErrConn, at_now = 2000000000 * int k, at_ctx = False, at_cancelled = False\<rparr>)\<rparr>"

theorem connect_terminates_witness:
  "\<exists>res s'. connectDB sample_service (fst (Load (vars []))) sample_connect sample_server = Some (res, s') \<and>
     (\<exists>m \<in> {1..32}. connect_reason (pool_config (fst (Load (vars [])))) (attempts sample_connect) 60000000000 res m)"
  using connect_terminates [of sample_connect sample_service "fst (Load (vars []))" sample_server]
  by (simp add: sample_connect_def)

section \<open>The sampler never raises a false alarm\<close>

lemma CheckInvariants_all_hold:
  assumes "store_ok d" and "CheckInvariants c d = Inr i"
  shows "AllHold i \<and> TotalBalancePaise i = total_minted d \<and> LedgerSumPaise i = 0"
proof -
  from assms(2) have "q_outcome c = QueryOk" "total_minted d \<le> int64_max"
    by (auto simp: CheckInvariants_def query_row_def in_int64_def split: query_outcome.splits if_splits)
  from CheckInvariants_ok [OF assms(1) this] assms(2) show ?thesis by (metis sum.inject(2))
qed

lemma sample_tick_sound:
  assumes "store_ok (s_db s)"
  shows "s_db (sample_tick sv c s) = s_db s" and "s_log (sample_tick sv c s) = s_log s"
  by (auto simp: sample_tick_def Let_def split: sum.split dest: CheckInvariants_all_hold [OF assms])

lemma sample_loop_sound:
  "store_ok (s_db s) \<Longrightarrow> s_log (sample_loop sv es s) = s_log s \<and> store_ok (s_db (sample_loop sv es s))"
proof (induction sv es s rule: sample_loop.induct)
  case (3 sv ops c es s)
  let ?s = "s\<lparr>s_db := store_run (sv_pg sv) ops (s_db s)\<rparr>"
  have "store_ok (s_db ?s)" using 3 by (simp add: store_run_ok)
  with 3 sample_tick_sound [OF this, of sv c] show ?case by simp
qed simp_all

lemma sample_loop_append:
  "SampleDone \<notin> set es \<Longrightarrow> sample_loop sv (es @ fs) s = sample_loop sv fs (sample_loop sv es s)"
  by (induction sv es s rule: sample_loop.induct) simp_all

text \<open>
  C23: The sampler of a sound database never reports a violation, over any ticks with any failures
  and any store calls in between; and after a tick whose query succeeds the gauges show the truth:
  the total balance is the total minted and the ledger sums to zero, unless the total does not fit
  an \<open>int64\<close>, in which case the sample is skipped.
\<close>

theorem sampler_never_alarms:
  assumes "store_ok (s_db s)"
  shows "s_log (sampleInvariants sv every es s) = s_log s \<and>
    (0 < every \<longrightarrow> SampleDone \<notin> set es \<longrightarrow> q_outcome c = QueryOk \<longrightarrow>
      s' = sampleInvariants sv every (es @ [SampleTick ops c]) s \<longrightarrow> total_minted (s_db s') \<le> int64_max \<longrightarrow>
      TotalBalance (s_metrics s') = total_minted (s_db s') \<and> LedgerSum (s_metrics s') = 0)"
proof (intro conjI [of "s_log _ = _"] impI)
  show "s_log (sampleInvariants sv every es s) = s_log s"
    using sample_loop_sound [OF assms] by (simp add: sampleInvariants_def)
  assume a: "0 < every" "SampleDone \<notin> set es" "q_outcome c = QueryOk"
    "s' = sampleInvariants sv every (es @ [SampleTick ops c]) s" "total_minted (s_db s') \<le> int64_max"
  let ?s = "(sample_loop sv es s)\<lparr>s_db := store_run (sv_pg sv) ops (s_db (sample_loop sv es s))\<rparr>"
  have ok: "store_ok (s_db ?s)" using sample_loop_sound [OF assms] by (simp add: store_run_ok)
  have s': "s' = sample_tick sv c ?s" using a(1,2,4) by (simp add: sampleInvariants_def sample_loop_append)
  have "s_db s' = s_db ?s" unfolding s' by (rule sample_tick_sound [OF ok])
  with a(5) have "total_minted (s_db ?s) \<le> int64_max" by simp
  from CheckInvariants_ok [OF ok a(3) this] obtain i where i: "CheckInvariants c (s_db ?s) = Inr i" "AllHold i"
    "TotalBalancePaise i = total_minted (s_db ?s)" "LedgerSumPaise i = 0" by metis
  with \<open>s_db s' = s_db ?s\<close> show "TotalBalance (s_metrics s') = total_minted (s_db s') \<and> LedgerSum (s_metrics s') = 0"
    by (simp add: s' sample_tick_def Let_def)
qed

theorem sampler_never_alarms_witness:
  "s_log (sampleInvariants sample_service 15 [] sample_server) = [] \<and>
   TotalBalance (s_metrics (sampleInvariants sample_service 15 [SampleTick [] (calm 9 [])] sample_server)) = 1000"
proof -
  let ?s = "sampleInvariants sample_service 15 ([] @ [SampleTick [] (calm 9 [])]) sample_server"
  have ok: "store_ok (s_db sample_server)" "s_log sample_server = []" by (simp_all add: sample_server_def)
  have "s_db ?s = s_db (sample_tick sample_service (calm 9 []) sample_server)"
    by (simp add: sampleInvariants_def store_run_def)
  then have d: "s_db ?s = sample_db" using sample_tick_sound(1) [OF ok(1)] by (simp add: sample_server_def)
  have "total_minted sample_db = 1000" by (simp add: total_minted_def sample_db_def)
  with sampler_never_alarms [OF ok(1), of sample_service 15 "[]" "calm 9 []" ?s "[]"] ok(2) d show ?thesis
    by (simp add: int64_max_def)
qed

section \<open>Starting\<close>

text \<open>
  The migration is idempotent and never loses data: on a database that has the tables it
  changes nothing, whatever fails; on an empty one it creates the empty tables or nothing; and
  when it reports success the tables are there.
\<close>

theorem migrate_idempotent:
  "snd (Migrate m (Some d)) = Some d \<and> snd (Migrate m None) \<in> {None, Some empty_db} \<and>
   (case Migrate m t of (None, t') \<Rightarrow> t' = Some (case t of Some d \<Rightarrow> d | None \<Rightarrow> empty_db) | _ \<Rightarrow> True)"
  by (auto simp: Migrate_def schema_script_def split: option.splits commit_outcome.splits)










section \<open>Health\<close>

lemma mux_health:
  "mux_find ''GET'' ''/healthz'' = Matched ''GET /healthz'' '''' RHealth"
  "mux_find ''GET'' ''/readyz'' = Matched ''GET /readyz'' '''' RReady"
  by code_simp+

lemma fresh_status [simp]: "status (new_recorder w) = 0"
  by (simp add: new_recorder_def)

lemma fresh_http_status [simp]: "w_status (http_Set k v new_writer) = 0"
  by (simp add: http_Set_def new_writer_def)

lemma recorder_http_status [simp]: "ResponseWriter (new_recorder w) = w"
  by (simp add: new_recorder_def)

lemma fresh_reply_sent:
  assumes "st \<noteq> 0"
  shows "w_status (ResponseWriter (writeJSON st v (new_recorder (http_Set correlationHeader i new_writer)))) = st"
proof -
  have "faithful (writeJSON st v (new_recorder (http_Set correlationHeader i new_writer)))" by simp
  then show ?thesis using assms by (simp add: faithful_def)
qed

text \<open>
  A \<open>GET\<close> over the loopback interface: the listener of \<open>run\<close> has the configured port and serves the
  path of the address; \<open>hdr\<close> are the headers of the client. Any other address finds nobody.
\<close>

definition get_request :: "(string \<Rightarrow> string) \<Rightarrow> string \<Rightarrow> request" where
  "get_request hdr path =
     \<lparr>Method = ''GET'', Path = path, Header = hdr, Query = (\<lambda>_. ''''), Body = [], Pattern = '''', PathID = '''', Context = None\<rparr>"

definition local_get :: "service \<Rightarrow> httpenv \<Rightarrow> server \<Rightarrow> (string \<Rightarrow> string) \<Rightarrow> Config \<Rightarrow> string \<Rightarrow> error + int" where
  "local_get sv h s hdr cfg url =
     (let base = ''http://127.0.0.1:'' @ Port cfg; path = drop (length base) url in
      if take (length base) url = base \<and> take 1 path = ''/''
      then Inr (w_status (snd (serve sv h (get_request hdr path) s)))
      else Inl ErrConn)"

lemma serve_health:
  assumes "path \<in> {''/healthz'', ''/readyz''}" and "serve sv h (get_request hdr path) s = (s', out)"
  shows "s_db s' = s_db s"
    and "w_status out = (if path = ''/healthz'' \<or> ping h = None then 200 else 503)"
proof -
  let ?g = "get_request hdr path"
  let ?i = "request_id h ?g"
  let ?r = "?g\<lparr>Context := WithCorrelationID (Context ?g) ?i\<rparr>" and ?w = "new_recorder (http_Set correlationHeader ?i new_writer)"
  have g: "Method ?g = ''GET''" "Path ?g = path" by (simp_all add: get_request_def)
  have "out = ResponseWriter (if path = ''/healthz'' then handleHealth sv h ?r ?w else handleReady h ?r ?w) \<and> s_db s' = s_db s"
    using assms
    by (auto simp: serve_def observe_def mux_ServeHTTP_def mux_health g Let_def recovered_def handleHealth_def handleReady_def
        split: option.splits)
  then show "s_db s' = s_db s" "w_status out = (if path = ''/healthz'' \<or> ping h = None then 200 else 503)"
    using assms(1) by (auto simp: handleHealth_def handleReady_def fresh_reply_sent)
qed

lemma local_get_path:
  "take 1 path = ''/'' \<Longrightarrow> local_get sv h s hdr cfg (''http://127.0.0.1:'' @ Port cfg @ path) =
     Inr (w_status (snd (serve sv h (get_request hdr path) s)))"
  by (simp add: local_get_def Let_def)

text \<open>
  C36: Liveness does not depend on the database and readiness does. The health probe that reads its
  port from the same environment as a running service reaches that service and succeeds, whatever
  the state of the service and whether or not the database answers; the same call with \<open>/readyz\<close>
  is answered 200 exactly when the ping of the database succeeds and 503 otherwise; and neither
  request changes the tables.
\<close>

theorem probes_tell_liveness_from_readiness:
  assumes "Load getenv = (cfg, None)"
  shows "probe getenv (local_get sv h s hdr cfg) = None \<and>
    local_get sv h s hdr cfg (''http://127.0.0.1:'' @ Port cfg @ ''/readyz'') = Inr (if ping h = None then 200 else 503) \<and>
    (\<forall>path \<in> {''/healthz'', ''/readyz''}. s_db (fst (serve sv h (get_request hdr path) s)) = s_db s)"
proof -
  have port: "Port cfg = (if getenv ''PORT'' = '''' then ''8080'' else getenv ''PORT'')"
    using assms by (auto simp: Load_def Let_def env_def split: if_splits)
  have st: "w_status (snd (serve sv h (get_request hdr path) s)) = (if path = ''/healthz'' \<or> ping h = None then 200 else 503) \<and>
      s_db (fst (serve sv h (get_request hdr path) s)) = s_db s" if "path \<in> {''/healthz'', ''/readyz''}" for path
    using serve_health [OF that, of sv h hdr s] by (metis prod.collapse)
  have "probe getenv (local_get sv h s hdr cfg) = None"
    using st [of "''/healthz''"] local_get_path [of "''/healthz''" sv h s hdr cfg] by (simp add: probe_def Let_def flip: port)
  then show ?thesis
    using st [of "''/readyz''"] st local_get_path [of "''/readyz''" sv h s hdr cfg] by simp
qed

theorem probes_tell_liveness_from_readiness_witness:
  "let getenv = vars [(''DATABASE_URL'', ''postgres''), (''PORT'', ''9000'')]; h = sample_env\<lparr>ping := Some ErrConn\<rparr>;
       cfg = fst (Load getenv)
   in probe getenv (local_get sample_service h sample_server (\<lambda>_. '''') cfg) = None \<and>
      local_get sample_service h sample_server (\<lambda>_. '''') cfg ''http://127.0.0.1:9000/readyz'' = Inr 503"
proof -
  let ?env = "vars [(''DATABASE_URL'', ''postgres''), (''PORT'', ''9000'')]"
  have "snd (Load ?env) = None" "Port (fst (Load ?env)) = ''9000''" by code_simp+
  then have l: "Load ?env = (fst (Load ?env), None)" and p: "Port (fst (Load ?env)) = ''9000''" by (metis prod.collapse)+
  from probes_tell_liveness_from_readiness [OF l, of sample_service "sample_env\<lparr>ping := Some ErrConn\<rparr>" sample_server "\<lambda>_. ''''"] p
  show ?thesis by (simp add: Let_def)
qed

end
