(* ===== verification/Spec2Isabelle.thy ===== *)
theory Spec2Isabelle
  imports Store_Props Store_Contracts Session_Props Service
begin

text \<open>
  A wallet and peer-to-peer transfer service in Go over Postgres, as HOL definitions and theorems.

  \<^bold>\<open>The program.\<close> A client sends JSON over HTTP with a bearer token. \<open>api.New\<close> builds a mux whose
  handlers run under \<open>observe\<close> (correlation id, metrics, access log, panic recovery); money
  handlers also run under \<open>authenticate\<close> or \<open>requireAdmin\<close>. The handlers call the store: users,
  one wallet per user, mints, and transfers keyed by an idempotency key. A transfer is one
  Postgres transaction that claims the key, locks the two wallet rows in ascending order of their
  ids, decides, and applies debit, credit and two ledger rows, all inside a retry loop for
  transient failures; a key that is already taken leads to a replay of the stored outcome. The
  audit recomputes the invariants from the tables, on request and by a sampler. Log records are
  stamped with the correlation id and go to a ring buffer with live subscribers. \<open>main\<close> loads the
  configuration, connects with retries, migrates, starts the sampler and the listener.

  \<^bold>\<open>Foundations.\<close>
  \<^item> \<open>Wallet_Prelude\<close>: type synonyms, \<open>int64\<close> ranges and wrap-around, decimal texts, list tables
    (\<open>update_where\<close>, \<open>rows_affected\<close>, \<open>col_sum\<close>) and their lemmas.
  \<^item> \<open>Go_Text\<close>: \<open>strings.TrimSpace\<close>, \<open>strings.EqualFold\<close>, \<open>strconv.Atoi\<close> on UTF-8 byte lists.
  \<^item> \<open>Samples\<close>: a concrete server and small databases on which the witnesses are evaluated.

  \<^bold>\<open>The store\<close> (\<open>src/internal/store\<close>).
  \<^item> \<open>Schema\<close> (\<open>schema.sql\<close>): the record \<open>db\<close> of five tables, every constraint, and the statements
    that the program sends, each giving the new tables or a SQLSTATE with a constraint name.
  \<^item> \<open>Store\<close> (\<open>store.go\<close>): errors, domain types, \<open>Fingerprint\<close>, and \<open>inTx\<close>. A \<open>txenv\<close> says for every
    attempt what fails and how the commit ends, also with the answer lost; theorems hold for all. A
    fault is a deadlock, a serialization failure, a lost connection or any other state of the server.
  \<^item> \<open>Books\<close>: the abstract effect of a transfer (\<open>post\<close>) and of a mint (\<open>deposit\<close>) and the invariant
    \<open>store_ok\<close>: schema, and every balance equal to its mints plus its ledger entries.
  \<^item> \<open>Wallet_Store\<close> (\<open>wallet.go\<close>) and \<open>Transfer_Store\<close> (\<open>transfer.go\<close>): every operation, statement by
    statement, with lemmas that relate it to \<open>post\<close> and \<open>deposit\<close>.
  \<^item> \<open>Store_Runs\<close>: the interfaces \<open>stepped_store\<close> and \<open>append_only\<close> and their instances; runs of store
    calls.
  \<^item> \<open>Store_Props\<close> and \<open>Store_Contracts\<close>: books in every run, one atomic move or nothing, at most one
    application per key under any retries, replay of the stored outcome, success, decline, conflict,
    overflow and spelling cases, errors without effect, bounded retries, the audit both ways.
  \<^item> \<open>Sessions\<close> and \<open>Session_Props\<close>: the same transaction as a step relation of many sessions with
    row locks. The decision and the second batch, which run under the locks already held, are one
    step, and a session that ends in an error just ends. Every interleaving is equivalent to the
    serial run of its commits (\<open>serial_order\<close>), with the same answers; no deadlock with canonical
    ids, by the interface \<open>ranked_locks\<close>; and the two ways in which the discipline can be broken.

  \<^bold>\<open>Observability and configuration\<close> (\<open>src/internal/obs\<close>, \<open>src/internal/config\<close>).
  \<^item> \<open>Log_Ring\<close> (\<open>log.go\<close>): the ring, with the interface \<open>bounded_log\<close>, and its fan-out interleaved
    with other writers, \<open>Subscribe\<close>, readers and cancel, including the send on a closed channel.
  \<^item> \<open>Observability\<close> (\<open>log.go\<close>, \<open>metrics.go\<close>): contexts, log records, the logger, the metric set, the
    records \<open>service\<close> (what never changes) and \<open>server\<close> (database, metrics, log, ring). Here a line
    goes to the standard output and into the ring; its fan-out is that of \<open>Log_Ring\<close>.
  \<^item> \<open>Config_Env\<close> (\<open>config.go\<close>): \<open>Load\<close> with the conversions to \<open>int32\<close> and to durations.

  \<^bold>\<open>The HTTP service\<close> (\<open>src/internal/api\<close>).
  \<^item> \<open>Json_Decode\<close>: \<open>decodeJSON\<close> with what it uses of \<open>encoding/json\<close>; strictness within the limit of
    the body, what the limit hides (\<open>oversized_body_accepted\<close>), and round trip. The
    parser's fuel is twice the length of the text plus one; \<open>parse_fuel\<close> shows that more makes no
    difference.
  \<^item> \<open>Http\<close>: requests, response writers (interface \<open>response_writer\<close>, instances for the server's
    writer and \<open>statusRecorder\<close>), \<open>writeJSON\<close>, \<open>writeError\<close>, the routing table and the matching of
    \<open>ServeMux\<close>.
  \<^item> \<open>Handlers\<close> (\<open>handlers.go\<close>): every handler on every branch. Before each of its store calls the calls
    of other requests may take effect (\<open>others\<close> in \<open>reqenv\<close>).
  \<^item> \<open>Api\<close> (\<open>middleware.go\<close>, \<open>server.go\<close>, \<open>static.go\<close>): correlation ids, tokens, \<open>authenticate\<close>,
    \<open>requireAdmin\<close>, the health and log endpoints, \<open>dispatch\<close>, \<open>observe\<close>, \<open>serve\<close>.
  \<^item> \<open>Api_Frame\<close>: the relation \<open>extends\<close> that every handler keeps, and what replies leave alone.
  \<^item> \<open>Api_Props\<close>: the interface \<open>wrapped_handler\<close> under \<open>observe\<close>; runs of requests keep the books;
    accounting of every request; panics.
  \<^item> \<open>Authority\<close>: owners are stable; only the owner moves money; tokens gate the writes and matter only
    through their hash.
  \<^item> \<open>Api_Outcomes\<close>: one outcome per transfer request, the one the store gave; refusals that move
    nothing; the path from the body to the store and back; the log endpoint.

  \<^bold>\<open>The process\<close> (\<open>src/cmd/wallet\<close>, \<open>migrate.go\<close>).
  \<^item> \<open>Service\<close>: the probe, the connection loop, the migration, the sampler, \<open>run\<close> with the goroutine
    that listens before or after a signal is noted. The loop has fuel for 32 attempts: waits of two
    seconds against a deadline of a minute allow no more. The probe meets the served routes through
    \<open>local_get\<close>, a \<open>GET\<close> over the loopback interface.

  \<^bold>\<open>Parameters.\<close> Postgres's \<open>uuid\<close> input, its acceptance of texts and SHA-256 are the record \<open>pg\<close>; the
  outcome of each query, commit and ping, the clocks, random bytes, the lines that \<open>slog\<close> prints, the
  page of the Prometheus client and the embedded pages are fields of environments. No theorem about the
  program fixes them.

  \<^bold>\<open>Not modelled.\<close> The text of JSON replies and of log lines (documents and records are kept as values);
  the duration of calls; \<open>Flush\<close> and the TCP side of \<open>net/http\<close>; log lines that other requests write
  while a log stream is open, other than as what the stream receives; float rounding of metrics; the page of
  a redirect and the \<open>Allow\<close> header of \<open>ServeMux\<close>; nesting limits of \<open>encoding/json\<close>, which a body of
  8192 bytes cannot reach; vacuuming, indexes and isolation anomalies that need more than one statement
  on a row outside the locks; the HTML and JavaScript of the two pages.
\<close>

end
